theory Spec2Isabelle
  imports Complex_Main "HOL-Library.Word"
begin

section \<open>The stepper test console of acisaldinamik.ino\<close>

text \<open>
  A shallow embedding of the firmware \<^verbatim>\<open>src/acisaldinamik/acisaldinamik.ino\<close>: the
  step timing functions, the motion executor \<^verbatim>\<open>moveWithProfile\<close> and the command
  interpreter \<^verbatim>\<open>parseAndExec\<close>.

  Conventions of the model.
  \<^item> \<^verbatim>\<open>uint32_t\<close>, \<^verbatim>\<open>uint16_t\<close> and \<^verbatim>\<open>uint8_t\<close> are words of that width; their
    arithmetic wraps as in C.
  \<^item> The target is the ATmega2560 of the Arduino Mega, the board that line 20 of the
    source names: \<^verbatim>\<open>int\<close> has 16 bits, \<^verbatim>\<open>long\<close> has 32 bits, \<^verbatim>\<open>float\<close> and \<^verbatim>\<open>double\<close>
    are both IEEE binary32. Values of type \<^verbatim>\<open>int\<close> and \<^verbatim>\<open>long\<close> are integers within the
    range of the type; \<^verbatim>\<open>atoi\<close> and \<^verbatim>\<open>atol\<close> wrap a number that is too large, and the
    casts \<^verbatim>\<open>(int)\<close>, \<^verbatim>\<open>(uint16_t)\<close>, \<^verbatim>\<open>(uint32_t)\<close> keep the low bits.
  \<^item> A \<^verbatim>\<open>float\<close> is the real number it stands for, and every float operation
    rounds its exact result to the nearest binary32 value, ties to even (\<open>f32\<close>),
    subnormal numbers included. Infinities and NaN are not modelled: a result beyond
    the largest binary32 number is rounded to 24 bits instead of becoming infinite.
    The cast \<^verbatim>\<open>(uint32_t)x\<close> cuts the fraction off, as C defines it for values in range.
  \<^item> Globals are the fields of one record, passed through every function. Pin levels
    are a map from pin number to level; every pin write, delay, serial print and read
    of the volatile abort flag is also appended to \<open>trace\<close>, the ordered log of what the
    firmware did.
  \<^item> \<^verbatim>\<open>abortRequested\<close> is \<^verbatim>\<open>volatile\<close>: it may be raised from outside the running
    function. The field \<open>asyncAbort\<close> is that environment: its k-th element tells
    whether the flag was raised from outside just before the k-th coming read of the
    flag (an exhausted list raises nothing). The environment can only set the flag;
    clearing it is done by the firmware alone.
\<close>

subsection \<open>Data\<close>

type_synonym uint8 = "8 word"
type_synonym uint16 = "16 word"
type_synonym uint32 = "32 word"

abbreviation (input) HIGH :: bool where "HIGH \<equiv> True"
abbreviation (input) LOW :: bool where "LOW \<equiv> False"

record MotorPins =
  pul :: uint8
  dir :: uint8
  ena :: uint8

definition MOT :: "MotorPins list" where
  "MOT = [\<lparr>pul = 2, dir = 3, ena = 4\<rparr>,
          \<lparr>pul = 5, dir = 6, ena = 7\<rparr>,
          \<lparr>pul = 8, dir = 9, ena = 10\<rparr>,
          \<lparr>pul = 11, dir = 12, ena = 13\<rparr>,
          \<lparr>pul = 46, dir = 47, ena = 48\<rparr>]"

text \<open>\<^verbatim>\<open>MOT[m-1]\<close> for a motor number \<open>m\<close>; every caller passes \<open>1 \<le> m \<le> 5\<close>.\<close>

definition motorPins :: "int \<Rightarrow> MotorPins" where
  "motorPins m = MOT ! nat (m - 1)"

text \<open>What \<^verbatim>\<open>Serial.print\<close> and \<^verbatim>\<open>Serial.println\<close> are given: a flash string, an
  integer, or a float with its number of decimals.\<close>

datatype serial_arg = Str string | Num int | Flt real nat

datatype event =
    DigitalWrite uint8 bool
  | DelayMicroseconds uint32
  | DelayMs uint32
  | SerialPrint serial_arg
  | SerialPrintln serial_arg
  | AbortRead bool

record state =
  stepsPerRev :: "uint32 list"
  aktifMotor :: int
  setAngleDeg :: real
  setSpeedDPS :: real
  pauseMs :: uint16
  repeats :: uint8
  rampMs :: uint16
  abortRequested :: bool
  movingMotor :: int
  pins :: "uint8 \<Rightarrow> bool"
  trace :: "event list"
  asyncAbort :: "bool list"

text \<open>The globals as their initialisers leave them (lines 42 to 60), all pins low,
  nothing logged and no request from outside.\<close>

definition initialState :: state where
  "initialState =
     \<lparr>stepsPerRev = [1600, 1600, 1600, 1600, 1600],
      aktifMotor = 1,
      setAngleDeg = 15,
      setSpeedDPS = 90,
      pauseMs = 500,
      repeats = 1,
      rampMs = 0,
      abortRequested = False,
      movingMotor = 0,
      pins = (\<lambda>_. LOW),
      trace = [],
      asyncAbort = []\<rparr>"

subsection \<open>Hardware and serial primitives\<close>

definition digitalWrite :: "uint8 \<Rightarrow> bool \<Rightarrow> state \<Rightarrow> state" where
  "digitalWrite pin v s =
     s\<lparr>pins := (pins s)(pin := v), trace := trace s @ [DigitalWrite pin v]\<rparr>"

definition digitalRead :: "uint8 \<Rightarrow> state \<Rightarrow> bool" where
  "digitalRead pin s = pins s pin"

definition delayMicroseconds :: "uint32 \<Rightarrow> state \<Rightarrow> state" where
  "delayMicroseconds us s = s\<lparr>trace := trace s @ [DelayMicroseconds us]\<rparr>"

definition delayMs :: "uint32 \<Rightarrow> state \<Rightarrow> state" where
  "delayMs ms s = s\<lparr>trace := trace s @ [DelayMs ms]\<rparr>"

definition serialPrint :: "serial_arg \<Rightarrow> state \<Rightarrow> state" where
  "serialPrint a s = s\<lparr>trace := trace s @ [SerialPrint a]\<rparr>"

definition serialPrintln :: "serial_arg \<Rightarrow> state \<Rightarrow> state" where
  "serialPrintln a s = s\<lparr>trace := trace s @ [SerialPrintln a]\<rparr>"

text \<open>One read of the volatile flag: a request from outside, if one is due, sets the
  flag first; the value read is logged.\<close>

definition readAbort :: "state \<Rightarrow> bool \<times> state" where
  "readAbort s =
     (let raised = (case asyncAbort s of [] \<Rightarrow> False | b # _ \<Rightarrow> b);
          v = (abortRequested s \<or> raised)
      in (v, s\<lparr>abortRequested := v,
                asyncAbort := tl (asyncAbort s),
                trace := trace s @ [AbortRead v]\<rparr>))"

definition enaOn :: "int \<Rightarrow> state \<Rightarrow> state" where
  "enaOn m s = digitalWrite (ena (motorPins m)) LOW s"

definition enaOff :: "int \<Rightarrow> state \<Rightarrow> state" where
  "enaOff m s = digitalWrite (ena (motorPins m)) HIGH s"

definition pulseOnce :: "uint8 \<Rightarrow> uint32 \<Rightarrow> state \<Rightarrow> state" where
  "pulseOnce pulPin delayUs s =
     (let half = delayUs div 2;
          s1 = digitalWrite pulPin HIGH s;
          s2 = delayMicroseconds half s1;
          s3 = digitalWrite pulPin LOW s2
      in delayMicroseconds (delayUs - half) s3)"

subsection \<open>Step timing\<close>

text \<open>Rounding to binary32. \<open>expo x\<close> is the exponent of a positive \<open>x\<close>, that is
  \<open>\<lfloor>log\<^sub>2 x\<rfloor>\<close>; \<open>rne\<close> rounds to the nearest integer, ties to even; \<open>f32 x\<close> is the
  multiple of the unit in the last place (24 significant bits, exponent not below -126)
  that is nearest to \<open>x\<close>.\<close>

function ilog2 :: "int \<Rightarrow> nat" where
  "ilog2 n = (if n \<le> 1 then 0 else Suc (ilog2 (n div 2)))"
  by pat_completeness auto
termination
  by (relation "measure nat") auto

declare ilog2.simps [simp del]

definition expo :: "real \<Rightarrow> int" where
  "expo x = (if 1 \<le> x then int (ilog2 \<lfloor>x\<rfloor>)
             else - int (Suc (ilog2 (\<lceil>1 / x\<rceil> - 1))))"

definition rne :: "real \<Rightarrow> int" where
  "rne q = (let f = \<lfloor>q\<rfloor>; d = q - of_int f
            in if d < 1 / 2 then f else if 1 / 2 < d then f + 1
               else if even f then f else f + 1)"

definition f32 :: "real \<Rightarrow> real" where
  "f32 x = (if x = 0 then 0
            else (let e = max (expo \<bar>x\<bar>) (- 126); u = 2 powi (e - 23)
                  in of_int (rne (x / u)) * u))"

text \<open>\<^verbatim>\<open>(float)w\<close> for an unsigned word, \<^verbatim>\<open>(uint32_t)x\<close> for a float (truncation towards
  zero), and \<^verbatim>\<open>lroundf\<close> (nearest, halves away from zero), which avr-libc documents to
  return \<^verbatim>\<open>LONG_MIN\<close> when the result does not fit a \<^verbatim>\<open>long\<close>.\<close>

definition toFloat :: "'a::len word \<Rightarrow> real" where
  "toFloat w = f32 (of_int (uint w))"

definition truncf :: "real \<Rightarrow> int" where
  "truncf x = (if 0 \<le> x then \<lfloor>x\<rfloor> else \<lceil>x\<rceil>)"

definition f2u32 :: "real \<Rightarrow> uint32" where
  "f2u32 x = word_of_int (truncf x)"

definition lroundf :: "real \<Rightarrow> int" where
  "lroundf x =
     (let r = (if 0 \<le> x then \<lfloor>x + 1 / 2\<rfloor> else \<lceil>x - 1 / 2\<rceil>)
      in if - 2147483648 \<le> r \<and> r \<le> 2147483647 then r else - 2147483648)"

definition degToSteps :: "int \<Rightarrow> real \<Rightarrow> state \<Rightarrow> uint32" where
  "degToSteps m deg s =
     (let stepsPerDeg = f32 (toFloat (stepsPerRev s ! nat (m - 1)) / 360);
          raw = f32 (\<bar>deg\<bar> * stepsPerDeg);
          sl = lroundf raw;
          sl' = (if sl < 0 then 0 else sl)
      in word_of_int sl')"

definition directionFor :: "real \<Rightarrow> bool" where
  "directionFor deg = (deg \<ge> 0)"

definition dpsToDelayUs :: "real \<Rightarrow> int \<Rightarrow> state \<Rightarrow> uint32" where
  "dpsToDelayUs dps m s =
     (let dps1 = (if dps \<le> 0 then 1 else dps);
          stepsPerDeg = f32 (toFloat (stepsPerRev s ! nat (m - 1)) / 360);
          sps = f32 (dps1 * stepsPerDeg);
          sps1 = (if sps < 1 then 1 else sps);
          periodUs = f32 (1000000 / sps1);
          periodUs1 = (if periodUs < 2 then 2 else periodUs)
      in f2u32 periodUs1)"

subsection \<open>The motion executor\<close>

text \<open>The shape shared by the four pulse loops of \<^verbatim>\<open>moveWithProfile\<close>:
  \<^verbatim>\<open>for (uint32_t i = i0; i < n; i++) { if (abortRequested) break; pulseOnce(pin, delayOf i); }\<close>
  The counter stays below \<open>n\<close>, so it cannot wrap.\<close>

function forPulses :: "uint8 \<Rightarrow> (nat \<Rightarrow> uint32) \<Rightarrow> nat \<Rightarrow> nat \<Rightarrow> state \<Rightarrow> state" where
  "forPulses pulPin delayOf i n s =
     (if i < n then
        (case readAbort s of
           (aborted, s1) \<Rightarrow>
             if aborted then s1
             else forPulses pulPin delayOf (Suc i) n (pulseOnce pulPin (delayOf i) s1))
      else s)"
  by pat_completeness auto
termination
  by (relation "measure (\<lambda>(pulPin, delayOf, i, n, s). n - i)") auto

declare forPulses.simps [simp del]

text \<open>Lines 126 to 129: the number of ramp steps, clamped to half the move.\<close>

definition rampStepsFor :: "uint32 \<Rightarrow> uint32 \<Rightarrow> uint16 \<Rightarrow> uint32" where
  "rampStepsFor totalSteps tgtDelayUs rampMsArg =
     (let spsTarget = f32 (1000000 / toFloat tgtDelayUs);
          rampSteps = f2u32 (max 1
            (f32 (f32 (spsTarget * f32 (toFloat rampMsArg / 1000)) * (1 / 2))))
      in if rampSteps * 2 > totalSteps then totalSteps div 2 else rampSteps)"

text \<open>Lines 132 and 133: the delay of the first step.\<close>

definition startDelayFor :: "uint32 \<Rightarrow> uint32" where
  "startDelayFor tgtDelayUs =
     (let startDelayUs = f2u32 (f32 (toFloat tgtDelayUs * (3 / 2)))
      in if startDelayUs < tgtDelayUs + 2 then tgtDelayUs + 2 else startDelayUs)"

text \<open>Lines 138 to 140 and 154 to 155: the interpolated delay of ramp step \<open>i\<close>. The
  difference of the two delays is taken in \<^verbatim>\<open>int\<close>, as the casts of the source say: each
  cast keeps the low 16 bits, and the difference is the 16-bit one.\<close>

definition intDiff :: "uint32 \<Rightarrow> uint32 \<Rightarrow> int" where
  "intDiff a b = sint ((ucast a :: uint16) - ucast b)"

definition rampT :: "uint32 \<Rightarrow> nat \<Rightarrow> real" where
  "rampT rampSteps i =
     (if rampSteps \<le> 1 then 1 else f32 (f32 (of_nat i) / toFloat (rampSteps - 1)))"

definition accelDelay :: "uint32 \<Rightarrow> uint32 \<Rightarrow> uint32 \<Rightarrow> nat \<Rightarrow> uint32" where
  "accelDelay rampSteps startDelayUs tgtDelayUs i =
     f2u32 (f32 (toFloat startDelayUs
                 + f32 (rampT rampSteps i * f32 (of_int (intDiff tgtDelayUs startDelayUs)))))"

definition decelDelay :: "uint32 \<Rightarrow> uint32 \<Rightarrow> uint32 \<Rightarrow> nat \<Rightarrow> uint32" where
  "decelDelay rampSteps startDelayUs tgtDelayUs i =
     f2u32 (f32 (toFloat tgtDelayUs
                 + f32 (rampT rampSteps i * f32 (of_int (intDiff startDelayUs tgtDelayUs)))))"

text \<open>Lines 116 to 158: the pulses of one move, at constant speed or as a trapezoid.\<close>

definition runProfile :: "uint8 \<Rightarrow> uint32 \<Rightarrow> uint32 \<Rightarrow> uint16 \<Rightarrow> state \<Rightarrow> state" where
  "runProfile pulPin totalSteps tgtDelayUs rampMsArg s =
     (if rampMsArg = 0 \<or> totalSteps < 10 then
        forPulses pulPin (\<lambda>i. tgtDelayUs) 0 (unat totalSteps) s
      else
        (let rampSteps = rampStepsFor totalSteps tgtDelayUs rampMsArg;
             startDelayUs = startDelayFor tgtDelayUs;
             s1 = forPulses pulPin (accelDelay rampSteps startDelayUs tgtDelayUs)
                    0 (unat rampSteps) s;
             midSteps = totalSteps - rampSteps - rampSteps;
             s2 = forPulses pulPin (\<lambda>i. tgtDelayUs) 0 (unat midSteps) s1
         in forPulses pulPin (decelDelay rampSteps startDelayUs tgtDelayUs)
              0 (unat rampSteps) s2))"

definition moveWithProfile :: "int \<Rightarrow> real \<Rightarrow> real \<Rightarrow> uint16 \<Rightarrow> state \<Rightarrow> state" where
  "moveWithProfile m deg dps rampMsArg s =
     (let p = motorPins m;
          fwd = directionFor deg;
          totalSteps = degToSteps m deg s
      in if totalSteps = 0 then s
         else
           (let s1 = digitalWrite (dir p) (if fwd then HIGH else LOW) s;
                s2 = enaOn m s1;
                s3 = s2\<lparr>movingMotor := m\<rparr>;
                s4 = s3\<lparr>abortRequested := False\<rparr>;
                s5 = serialPrintln (Str '' START'')
                       (serialPrint (Num m) (serialPrint (Str ''MOVING M'') s4));
                tgtDelayUs = dpsToDelayUs dps m s5;
                s6 = runProfile (pul p) totalSteps tgtDelayUs rampMsArg s5;
                s7 = s6\<lparr>movingMotor := 0\<rparr>
            in serialPrintln (Str '' END'')
                 (serialPrint (Num m) (serialPrint (Str ''MOVING M'') s7))))"

definition doForward :: "int \<Rightarrow> state \<Rightarrow> state" where
  "doForward m s = moveWithProfile m \<bar>setAngleDeg s\<bar> (setSpeedDPS s) (rampMs s) s"

definition doBackward :: "int \<Rightarrow> state \<Rightarrow> state" where
  "doBackward m s = moveWithProfile m (- \<bar>setAngleDeg s\<bar>) (setSpeedDPS s) (rampMs s) s"

subsection \<open>Strings and number parsing\<close>

text \<open>The character classes of \<^verbatim>\<open>ctype.h\<close> in the C locale, \<^verbatim>\<open>String::trim\<close>,
  \<^verbatim>\<open>String::toUpperCase\<close> and \<^verbatim>\<open>String::toCharArray\<close> of the Arduino core, and the
  token sequence that repeated calls of \<^verbatim>\<open>strtok(..., " ,\t")\<close> return.\<close>

definition isspace :: "char \<Rightarrow> bool" where
  "isspace c = (let n = (of_char c :: nat) in n = 32 \<or> (9 \<le> n \<and> n \<le> 13))"

definition isdigit :: "char \<Rightarrow> bool" where
  "isdigit c = (let n = (of_char c :: nat) in 48 \<le> n \<and> n \<le> 57)"

definition toupper :: "char \<Rightarrow> char" where
  "toupper c =
     (case map_of (zip ''abcdefghijklmnopqrstuvwxyz'' ''ABCDEFGHIJKLMNOPQRSTUVWXYZ'') c of
        None \<Rightarrow> c
      | Some u \<Rightarrow> u)"

definition tolower :: "char \<Rightarrow> char" where
  "tolower c =
     (case map_of (zip ''ABCDEFGHIJKLMNOPQRSTUVWXYZ'' ''abcdefghijklmnopqrstuvwxyz'') c of
        None \<Rightarrow> c
      | Some l \<Rightarrow> l)"

definition trim :: "string \<Rightarrow> string" where
  "trim str = rev (dropWhile isspace (rev (dropWhile isspace str)))"

definition toUpperCase :: "string \<Rightarrow> string" where
  "toUpperCase str = map toupper str"

text \<open>\<^verbatim>\<open>toCharArray(buf, bufsize)\<close> copies at most \<open>bufsize - 1\<close> characters.\<close>

definition toCharArray :: "string \<Rightarrow> nat \<Rightarrow> string" where
  "toCharArray str bufsize = take (bufsize - 1) str"

definition isDelim :: "char \<Rightarrow> bool" where
  "isDelim c = (c = CHR '' '' \<or> c = CHR '','' \<or> c = CHR 0x09)"

function strtokAll :: "string \<Rightarrow> string list" where
  "strtokAll str =
     (case dropWhile isDelim str of
        [] \<Rightarrow> []
      | c # cs \<Rightarrow> takeWhile (\<lambda>x. \<not> isDelim x) (c # cs)
                 # strtokAll (dropWhile (\<lambda>x. \<not> isDelim x) cs))"
  by pat_completeness auto
termination
proof (relation "measure length")
  show "wf (measure length)" by simp
next
  fix str :: string and c cs
  assume a: "dropWhile isDelim str = c # cs"
  have "length (dropWhile (\<lambda>x. \<not> isDelim x) cs) \<le> length cs"
    by (rule length_dropWhile_le)
  moreover have "length (c # cs) \<le> length str"
    using length_dropWhile_le [of isDelim str] a by simp
  ultimately show "(dropWhile (\<lambda>x. \<not> isDelim x) cs, str) \<in> measure length"
    by simp
qed

declare strtokAll.simps [simp del]

text \<open>\<^verbatim>\<open>strcasecmp(a, b) == 0\<close>.\<close>

definition strcasecmpEq :: "string \<Rightarrow> string \<Rightarrow> bool" where
  "strcasecmpEq a b = (map tolower a = map tolower b)"

text \<open>\<^verbatim>\<open>atoi\<close>, \<^verbatim>\<open>atol\<close> and \<^verbatim>\<open>atof\<close>: leading white space, an optional sign, then the
  longest run of digits (for \<^verbatim>\<open>atof\<close> also a fraction and a decimal exponent); 0 when
  no number is there. \<open>readInteger\<close> is the number as written; \<^verbatim>\<open>atoi\<close> keeps its low
  16 bits and \<^verbatim>\<open>atol\<close> its low 32 bits, as two's complement, which is what the
  accumulating loops of avr-libc leave. \<^verbatim>\<open>atof\<close> gives the binary32 value nearest to the
  number written (the conversion of avr-libc can be off by a unit in the last place
  for long decimal fractions; it is exact on the whole numbers used below); the texts
  \<^verbatim>\<open>inf\<close> and \<^verbatim>\<open>nan\<close>, which avr-libc reads as an infinity and a NaN, hold no digits and
  are read as 0 here.\<close>

definition digitVal :: "char \<Rightarrow> int" where
  "digitVal c = int (of_char c) - 48"

definition decimal :: "string \<Rightarrow> int" where
  "decimal ds = foldl (\<lambda>a c. 10 * a + digitVal c) 0 ds"

definition readInteger :: "string \<Rightarrow> int" where
  "readInteger str =
     (case dropWhile isspace str of
        [] \<Rightarrow> 0
      | c # r \<Rightarrow>
          if c = CHR ''-'' then - decimal (takeWhile isdigit r)
          else if c = CHR ''+'' then decimal (takeWhile isdigit r)
          else decimal (takeWhile isdigit (c # r)))"

definition atoi :: "string \<Rightarrow> int" where
  "atoi str = sint (word_of_int (readInteger str) :: uint16)"

definition atol :: "string \<Rightarrow> int" where
  "atol str = sint (word_of_int (readInteger str) :: uint32)"

definition exponentOf :: "string \<Rightarrow> int" where
  "exponentOf r =
     (case r of
        [] \<Rightarrow> 0
      | e # r1 \<Rightarrow>
          if e = CHR ''e'' \<or> e = CHR ''E'' then
            (let eneg = (r1 \<noteq> [] \<and> hd r1 = CHR ''-'');
                 r2 = (if r1 \<noteq> [] \<and> (hd r1 = CHR ''-'' \<or> hd r1 = CHR ''+'') then tl r1 else r1);
                 ed = takeWhile isdigit r2
             in if eneg then - decimal ed else decimal ed)
          else 0)"

definition atof :: "string \<Rightarrow> real" where
  "atof str =
     (let t = dropWhile isspace str;
          neg = (t \<noteq> [] \<and> hd t = CHR ''-'');
          t1 = (if t \<noteq> [] \<and> (hd t = CHR ''-'' \<or> hd t = CHR ''+'') then tl t else t);
          ip = takeWhile isdigit t1;
          r1 = dropWhile isdigit t1;
          hasDot = (r1 \<noteq> [] \<and> hd r1 = CHR ''.'');
          fp = (if hasDot then takeWhile isdigit (tl r1) else []);
          r2 = (if hasDot then dropWhile isdigit (tl r1) else r1);
          mant = of_int (decimal (ip @ fp)) / 10 ^ length fp;
          ex = exponentOf r2;
          v = (if ip @ fp = [] then 0
               else if 0 \<le> ex then mant * 10 ^ nat ex
               else mant / 10 ^ nat (- ex))
      in f32 (if neg then - v else v))"

subsection \<open>The command interpreter\<close>

text \<open>A sequence of statements that each only change the state.\<close>

definition doAll :: "(state \<Rightarrow> state) list \<Rightarrow> state \<Rightarrow> state" where
  "doAll fs s = fold (\<lambda>f t. f t) fs s"

definition printHelp :: "state \<Rightarrow> state" where
  "printHelp s =
     doAll (map (\<lambda>l. serialPrintln (Str l))
       [''Komutlar:'',
        ''  M <1-5>         : Motor sec'',
        ''  A <deg>         : Aci (derece, +/-)'',
        ''  V <dps>         : Hiz (derece/s)'',
        ''  S <steps_rev>   : Secili motor icin steps/rev ata (ornegin 1600, 3200)'',
        ''  RAMP <ms>       : Ivmelenme/yavaslama suresi (0 = kapali)'',
        ''  PAUSE <ms>      : Ileri-geri arasi bekleme'',
        ''  REP <n>         : Q icin tekrar sayisi'',
        ''  G               : Yalniz ileri hareket (setAngleDeg, setSpeedDPS)'',
        ''  Q               : Ileri-geri hareket (REP kadar tekrar)'',
        ''  SHOW            : Mevcut ayarlari yaz'',
        ''  MOVE m deg dps  : Tek satir ileri hareket'',
        ''  TEST m deg dps rep pause_ms : Ileri-geri tekrarla'',
        ''  ABORT           : Acil durdur (hareketi kes, ENA OFF)'',
        ''  ENA [m] ON|OFF  : ENA ac/kapat (m verilirse sadece o motor)'',
        ''  STOP [m]        : O anki hareketi kes (m verilirse yalniz o motor)'',
        ''  STATUS          : Tum motorlarin ENA/MOVING durumunu yaz'']) s"

definition showState :: "state \<Rightarrow> state" where
  "showState s =
     (let spr = stepsPerRev s ! nat (aktifMotor s - 1);
          stepsPerDeg = f32 (toFloat spr / 360)
      in doAll
          [serialPrintln (Str ''--------- AYARLAR ---------''),
           serialPrint (Str ''Motor: ''), serialPrintln (Num (aktifMotor s)),
           serialPrint (Str ''Aci (deg): ''), serialPrintln (Flt (setAngleDeg s) 3),
           serialPrint (Str ''Hiz (deg/s): ''), serialPrintln (Flt (setSpeedDPS s) 3),
           serialPrint (Str ''Steps/Rev (secili): ''), serialPrintln (Num (uint spr)),
           serialPrint (Str ''Rampa (ms): ''), serialPrintln (Num (uint (rampMs s))),
           serialPrint (Str ''Pause (ms): ''), serialPrintln (Num (uint (pauseMs s))),
           serialPrint (Str ''Repeat: ''), serialPrintln (Num (uint (repeats s))),
           serialPrint (Str ''1 deg = ''), serialPrint (Flt stepsPerDeg 3),
           serialPrintln (Str '' step''),
           serialPrintln (Str ''---------------------------'')] s)"

text \<open>Lines 216 to 223.\<close>

definition cmdABORT :: "state \<Rightarrow> state" where
  "cmdABORT s =
     (let s1 = s\<lparr>abortRequested := True\<rparr>;
          s2 = fold enaOff [1, 2, 3, 4, 5] s1;
          s3 = s2\<lparr>movingMotor := 0\<rparr>
      in serialPrintln (Str ''ABORT: hareket durduruldu, ENA OFF'') s3)"

text \<open>Lines 225 to 233. The counter is a \<^verbatim>\<open>uint8_t\<close> below \<open>repeats\<close>, so below 256.\<close>

function qLoop :: "nat \<Rightarrow> state \<Rightarrow> state" where
  "qLoop i s =
     (if i < unat (repeats s) then
        (let s1 = doForward (aktifMotor s) s;
             s2 = delayMs (ucast (pauseMs s1)) s1;
             s3 = doBackward (aktifMotor s2) s2;
             s4 = (if int i + 1 < uint (repeats s3) then delayMs (ucast (pauseMs s3)) s3 else s3)
         in qLoop (Suc i) s4)
      else s)"
  by pat_completeness auto
termination
proof (relation "measure (\<lambda>(i, s). 256 - i)")
  show "wf (measure (\<lambda>(i, s). 256 - i))" by simp
next
  fix i :: nat and s :: state and x xa xb xc
  assume "i < unat (repeats s)"
  moreover have "unat (repeats s) < 256"
    using unsigned_less [of "repeats s", where ?'a = nat] by simp
  ultimately show "((Suc i, xc), i, s) \<in> measure (\<lambda>(i, s). 256 - i)"
    by simp
qed

declare qLoop.simps [simp del]

text \<open>Lines 242 to 253.\<close>

definition cmdM :: "string list \<Rightarrow> state \<Rightarrow> state" where
  "cmdM args s =
     (case args of
        [] \<Rightarrow> s
      | p # _ \<Rightarrow>
          (let m = atoi p
           in if m \<ge> 1 \<and> m \<le> 5 then
                (let s1 = s\<lparr>aktifMotor := m\<rparr>;
                     s2 = serialPrintln (Num (aktifMotor s1))
                            (serialPrint (Str ''Motor secildi: '') s1)
                 in enaOn (aktifMotor s2) s2)
              else s))"

text \<open>Lines 255 to 279. After \<^verbatim>\<open>strtok\<close> has returned \<^verbatim>\<open>NULL\<close> it keeps returning it.\<close>

definition cmdENA :: "string list \<Rightarrow> state \<Rightarrow> state" where
  "cmdENA args s =
     (let pm = (case args of [] \<Rightarrow> None | a # _ \<Rightarrow> Some a);
          pstate0 = (case args of _ # b # _ \<Rightarrow> Some b | _ \<Rightarrow> None);
          numbered = (case pm of Some a \<Rightarrow> a \<noteq> [] \<and> isdigit (hd a) | None \<Rightarrow> False);
          m = (if numbered then atoi (the pm) else 0);
          pstate = (if numbered then pstate0 else pm)
      in case pstate of
           None \<Rightarrow> s
         | Some st \<Rightarrow>
             (let turnOn = strcasecmpEq st ''ON'';
                  turnOff = strcasecmpEq st ''OFF''
              in if \<not> (turnOn \<or> turnOff) then s
                 else if m \<ge> 1 \<and> m \<le> 5 then
                   (if turnOn then
                      serialPrintln (Num m) (serialPrint (Str ''ENA ON M'') (enaOn m s))
                    else
                      serialPrintln (Num m) (serialPrint (Str ''ENA OFF M'') (enaOff m s)))
                 else
                   serialPrintln
                     (Str (if turnOn then ''ENA: ON (tum motorlar)''
                           else ''ENA: OFF (tum motorlar)''))
                     (fold (\<lambda>i. if turnOn then enaOn i else enaOff i) [1, 2, 3, 4, 5] s)))"

text \<open>Lines 281 to 301.\<close>

definition cmdSTOP :: "string list \<Rightarrow> state \<Rightarrow> state" where
  "cmdSTOP args s =
     (case args of
        pm # _ \<Rightarrow>
          (let m = atoi pm
           in if m \<ge> 1 \<and> m \<le> 5 then
                (let s1 = (if movingMotor s = m
                           then s\<lparr>abortRequested := True, movingMotor := 0\<rparr> else s);
                     s2 = enaOff m s1
                 in serialPrintln (Num m) (serialPrint (Str ''STOP: M'') s2))
              else s)
      | [] \<Rightarrow>
          (let s1 = s\<lparr>abortRequested := True\<rparr>;
               s2 = fold enaOff [1, 2, 3, 4, 5] s1;
               s3 = s2\<lparr>movingMotor := 0\<rparr>
           in serialPrintln (Str ''STOP: tum motorlar'') s3))"

text \<open>Lines 303 to 312.\<close>

definition statusLine :: "int \<Rightarrow> state \<Rightarrow> state" where
  "statusLine i s =
     (let enaOnState = (digitalRead (ena (motorPins i)) s = LOW);
          isMoving = (movingMotor s = i)
      in doAll
          [serialPrint (Str ''STATUS M''), serialPrint (Num i),
           serialPrint (Str '' ENA:''),
           serialPrint (Str (if enaOnState then ''ON'' else ''OFF'')),
           serialPrint (Str '' MOVING:''),
           serialPrintln (Num (if isMoving then 1 else 0))] s)"

definition cmdSTATUS :: "state \<Rightarrow> state" where
  "cmdSTATUS s = fold statusLine [1, 2, 3, 4, 5] s"

text \<open>Lines 314 to 331.\<close>

definition cmdA :: "string list \<Rightarrow> state \<Rightarrow> state" where
  "cmdA args s =
     (case args of
        [] \<Rightarrow> s
      | p # _ \<Rightarrow>
          (let s1 = s\<lparr>setAngleDeg := atof p\<rparr>
           in serialPrintln (Flt (setAngleDeg s1) 3) (serialPrint (Str ''Aci(deg): '') s1)))"

definition cmdV :: "string list \<Rightarrow> state \<Rightarrow> state" where
  "cmdV args s =
     (case args of
        [] \<Rightarrow> s
      | p # _ \<Rightarrow>
          (let s1 = s\<lparr>setSpeedDPS := atof p\<rparr>;
               s2 = (if setSpeedDPS s1 \<le> 0 then s1\<lparr>setSpeedDPS := 1\<rparr> else s1)
           in serialPrintln (Flt (setSpeedDPS s2) 3) (serialPrint (Str ''Hiz(deg/s): '') s2)))"

text \<open>Lines 333 to 344.\<close>

definition cmdS :: "string list \<Rightarrow> state \<Rightarrow> state" where
  "cmdS args s =
     (case args of
        [] \<Rightarrow> s
      | p # _ \<Rightarrow>
          (let spr = (word_of_int (atol p) :: uint32)
           in if spr \<ge> 50 \<and> spr \<le> 200000 then
                (let s1 = s\<lparr>stepsPerRev := (stepsPerRev s)[nat (aktifMotor s - 1) := spr]\<rparr>
                 in doAll
                     [serialPrint (Str ''Steps/Rev (M''), serialPrint (Num (aktifMotor s1)),
                      serialPrint (Str ''): ''), serialPrintln (Num (uint spr))] s1)
              else s))"

text \<open>Lines 346 to 379.\<close>

definition cmdRAMP :: "string list \<Rightarrow> state \<Rightarrow> state" where
  "cmdRAMP args s =
     (case args of
        [] \<Rightarrow> s
      | p # _ \<Rightarrow>
          (let v = atoi p;
               v1 = (if v < 0 then 0 else v);
               v2 = (if v1 > 5000 then 5000 else v1);
               s1 = s\<lparr>rampMs := word_of_int v2\<rparr>
           in serialPrintln (Num (uint (rampMs s1))) (serialPrint (Str ''Rampa (ms): '') s1)))"

definition cmdPAUSE :: "string list \<Rightarrow> state \<Rightarrow> state" where
  "cmdPAUSE args s =
     (case args of
        [] \<Rightarrow> s
      | p # _ \<Rightarrow>
          (let v = atoi p;
               v1 = (if v < 0 then 0 else v);
               s1 = s\<lparr>pauseMs := word_of_int v1\<rparr>
           in serialPrintln (Num (uint (pauseMs s1))) (serialPrint (Str ''Pause (ms): '') s1)))"

definition cmdREP :: "string list \<Rightarrow> state \<Rightarrow> state" where
  "cmdREP args s =
     (case args of
        [] \<Rightarrow> s
      | p # _ \<Rightarrow>
          (let v = atoi p;
               v1 = (if v < 1 then 1 else v);
               v2 = (if v1 > 200 then 200 else v1);
               s1 = s\<lparr>repeats := word_of_int v2\<rparr>
           in serialPrintln (Num (uint (repeats s1))) (serialPrint (Str ''Repeat: '') s1)))"

text \<open>Lines 382 to 397.\<close>

definition cmdMOVE :: "string list \<Rightarrow> state \<Rightarrow> state" where
  "cmdMOVE args s =
     (case args of
        pm # pd # pv # _ \<Rightarrow>
          (let m = atoi pm; deg = atof pd; dps = atof pv
           in if m \<ge> 1 \<and> m \<le> 5 \<and> dps > 0 then
                (let s1 = s\<lparr>aktifMotor := m\<rparr>;
                     s2 = s1\<lparr>abortRequested := False\<rparr>
                 in moveWithProfile m deg dps (rampMs s2) s2)
              else s)
      | _ \<Rightarrow> s)"

text \<open>Lines 415 to 422, the loop of \<^verbatim>\<open>TEST\<close>; both tests of the flag are reads of the
  volatile variable.\<close>

function testLoop :: "int \<Rightarrow> int \<Rightarrow> int \<Rightarrow> real \<Rightarrow> real \<Rightarrow> int \<Rightarrow> state \<Rightarrow> state" where
  "testLoop i rep m deg dps pms s =
     (if i < rep then
        (case readAbort s of
           (a1, s1) \<Rightarrow>
             if a1 then s1
             else
               (let s2 = moveWithProfile m \<bar>deg\<bar> dps (rampMs s1) s1
                in case readAbort s2 of
                     (a2, s3) \<Rightarrow>
                       if a2 then s3
                       else
                         (let s4 = delayMs (word_of_int pms) s3;
                              s5 = moveWithProfile m (- \<bar>deg\<bar>) dps (rampMs s4) s4;
                              s6 = (if i + 1 < rep then delayMs (word_of_int pms) s5 else s5)
                          in testLoop (i + 1) rep m deg dps pms s6)))
      else s)"
  by pat_completeness auto
termination
  by (relation "measure (\<lambda>(i, rep, m, deg, dps, pms, s). nat (rep - i))") auto

declare testLoop.simps [simp del]

text \<open>Lines 399 to 426.\<close>

definition cmdTEST :: "string list \<Rightarrow> state \<Rightarrow> state" where
  "cmdTEST args s =
     (case args of
        pm # pd # pv # pr # pp # _ \<Rightarrow>
          (let m = atoi pm; deg = atof pd; dps = atof pv; rep = atoi pr; pms = atoi pp
           in if m \<ge> 1 \<and> m \<le> 5 \<and> dps > 0 \<and> rep \<ge> 1 then
                (let s1 = s\<lparr>aktifMotor := m\<rparr>;
                     s2 = s1\<lparr>abortRequested := False\<rparr>
                 in testLoop 0 rep m deg dps pms s2)
              else s)
      | _ \<Rightarrow> s)"

text \<open>Lines 242 to 428: the chain of \<^verbatim>\<open>strcmp\<close> tests on the first token; \<open>args\<close> are the
  tokens that the further calls of \<^verbatim>\<open>strtok\<close> return.\<close>

definition execCmd :: "string \<Rightarrow> string list \<Rightarrow> state \<Rightarrow> state" where
  "execCmd cmd args s =
     (if cmd = ''M'' then cmdM args s
      else if cmd = ''ENA'' then cmdENA args s
      else if cmd = ''STOP'' then cmdSTOP args s
      else if cmd = ''STATUS'' then cmdSTATUS s
      else if cmd = ''A'' then cmdA args s
      else if cmd = ''V'' then cmdV args s
      else if cmd = ''S'' then cmdS args s
      else if cmd = ''RAMP'' then cmdRAMP args s
      else if cmd = ''PAUSE'' then cmdPAUSE args s
      else if cmd = ''REP'' then cmdREP args s
      else if cmd = ''MOVE'' then cmdMOVE args s
      else if cmd = ''TEST'' then cmdTEST args s
      else serialPrintln (Str ''Bilinmeyen komut. 'HELP' yaz.'') s)"

text \<open>Lines 204 to 240, with the size of the token buffer as a parameter. The firmware
  declares \<^verbatim>\<open>char buf[64]\<close>.\<close>

definition parseAndExecBuf :: "nat \<Rightarrow> string \<Rightarrow> state \<Rightarrow> state" where
  "parseAndExecBuf bufsize line0 s =
     (let line = trim line0
      in if length line = 0 then s
         else
           (let u = toUpperCase line
            in if u = ''HELP'' \<or> u = ''?'' then printHelp s
               else if u = ''SHOW'' then showState s
               else if u = ''G'' then doForward (aktifMotor s) s
               else if u = ''ABORT'' then cmdABORT s
               else if u = ''Q'' then qLoop 0 s
               else
                 (case strtokAll (toCharArray line bufsize) of
                    [] \<Rightarrow> s
                  | cmd # args \<Rightarrow> execCmd cmd args s)))"

definition parseAndExec :: "string \<Rightarrow> state \<Rightarrow> state" where
  "parseAndExec line0 s = parseAndExecBuf 64 line0 s"

text \<open>Lines 448 to 458: \<^verbatim>\<open>loop\<close>, run over the bytes that \<^verbatim>\<open>Serial.read\<close> returns one after
  the other; \<open>inbuf\<close> is the global line buffer, which takes 120 characters at most.\<close>

fun loop :: "string \<Rightarrow> string \<Rightarrow> state \<Rightarrow> string \<times> state" where
  "loop [] inbuf s = (inbuf, s)"
| "loop (c # cs) inbuf s =
     (if c = CHR 0x0A \<or> c = CHR 0x0D then loop cs [] (parseAndExec inbuf s)
      else loop cs (if length inbuf < 120 then inbuf @ [c] else inbuf) s)"

subsection \<open>Notions used in the statements\<close>

text \<open>The one-word commands, which \<^verbatim>\<open>parseAndExec\<close> compares with the upper-cased
  line.\<close>

definition oneWord :: "string \<Rightarrow> bool" where
  "oneWord u =
     (u = ''HELP'' \<or> u = ''?'' \<or> u = ''SHOW'' \<or> u = ''G'' \<or> u = ''ABORT'' \<or> u = ''Q'')"

text \<open>The formulas of the specification for the step delay and for the first delay of a
  ramp, both in exact arithmetic with rounding to the nearest integer; they are compared
  with the source below.\<close>

definition specDelayMicrosForSpeed :: "real \<Rightarrow> uint32 \<Rightarrow> int" where
  "specDelayMicrosForSpeed dps spr =
     (let dpsClamped = (if dps \<le> 0 then 1 else dps);
          stepsPerSecond = max 1 (dpsClamped * of_int (uint spr) / 360)
      in max 2 (round (1000000 / stepsPerSecond)))"


text \<open>\<open>checkedBefore pe prev evs\<close>: in the log \<open>evs\<close>, which follows the event \<open>prev\<close>, every
  occurrence of the event \<open>pe\<close> comes directly after a read of the abort flag that
  returned false.\<close>

fun checkedBefore :: "event \<Rightarrow> event option \<Rightarrow> event list \<Rightarrow> bool" where
  "checkedBefore pe prev [] = True"
| "checkedBefore pe prev (e # es) =
     ((e \<noteq> pe \<or> prev = Some (AbortRead False)) \<and> checkedBefore pe (Some e) es)"

text \<open>The number of pulses on a pin in a log: a pulse starts with the pin going high.\<close>

definition pulseCount :: "uint8 \<Rightarrow> event list \<Rightarrow> nat" where
  "pulseCount pin evs = length (filter (\<lambda>e. e = DigitalWrite pin HIGH) evs)"

text \<open>What the proofs keep of a stretch \<open>evs\<close> of the log, written while the abort flag
  went from \<open>f0\<close> to \<open>f1\<close>: pulses are checked, none follows a read that returned true,
  such a read leaves the flag set, and a flag that was set stays set and allows no
  pulse.\<close>

definition segOK :: "event \<Rightarrow> bool \<Rightarrow> event list \<Rightarrow> bool \<Rightarrow> bool" where
  "segOK pe f0 evs f1 \<longleftrightarrow>
     (\<forall>prev. checkedBefore pe prev evs)
     \<and> pe \<notin> set (dropWhile (\<lambda>e. e \<noteq> AbortRead True) evs)
     \<and> (AbortRead True \<in> set evs \<longrightarrow> f1)
     \<and> (f0 \<longrightarrow> pe \<notin> set evs \<and> f1)"

section \<open>Properties\<close>

lemmas prim_defs = digitalWrite_def delayMicroseconds_def delayMs_def serialPrint_def
  serialPrintln_def readAbort_def enaOn_def enaOff_def pulseOnce_def motorPins_def MOT_def
  doAll_def

lemmas str_defs = trim_def isspace_def isdigit_def toupper_def tolower_def toUpperCase_def
  toCharArray_def isDelim_def strcasecmpEq_def digitVal_def decimal_def readInteger_def
  atoi_def atol_def atof_def exponentOf_def

lemmas parse_defs = parseAndExec_def parseAndExecBuf_def execCmd_def strtokAll.simps

lemmas f32_eval = f32_def expo_def rne_def ilog2.simps Let_def

subsection \<open>Rounding to binary32\<close>

text \<open>What the proofs use of \<open>f32\<close>: it keeps the sign, at most doubles a value, stays on
  the same side of a number it represents exactly, and is exact on the integers below
  \<open>2 ^ 24\<close> and on multiples of \<open>1 / 2 ^ j\<close> below \<open>2 ^ (24 - j)\<close>.\<close>

lemma ilog2_bounds: "1 \<le> n \<Longrightarrow> 2 ^ ilog2 n \<le> n \<and> n < 2 * 2 ^ ilog2 n"
proof (induction n rule: ilog2.induct)
  case (1 n)
  show ?case
  proof (cases "n \<le> 1")
    case True
    then have "n = 1" using "1.prems" by simp
    then show ?thesis by (simp add: ilog2.simps)
  next
    case False
    then have h: "1 \<le> n div 2" by simp
    note ih = "1.IH" [OF False h]
    have e: "ilog2 n = Suc (ilog2 (n div 2))" using False by (simp add: ilog2.simps)
    have a: "2 * (n div 2) \<le> n" by simp
    have b: "n \<le> 2 * (n div 2) + 1" by presburger
    define p :: int where "p = 2 ^ ilog2 (n div 2)"
    have c: "p \<le> n div 2" and d: "n div 2 < 2 * p" using ih by (simp_all add: p_def)
    have "2 * p \<le> n \<and> n < 2 * (2 * p)" using a b c d by linarith
    then show ?thesis by (simp add: e p_def)
  qed
qed

lemma expo_less:
  assumes "0 < x" and "x < 2 ^ k"
  shows "expo x < int k"
proof (cases "1 \<le> x")
  case False
  then show ?thesis by (simp add: expo_def)
next
  case True
  define n where "n = \<lfloor>x\<rfloor>"
  have n1: "1 \<le> n" using True by (simp add: n_def le_floor_iff)
  have "(2::int) ^ ilog2 n \<le> n" using ilog2_bounds [OF n1] by simp
  then have "(2::real) ^ ilog2 n \<le> of_int n" by (metis of_int_le_iff of_int_numeral of_int_power)
  also have "of_int n \<le> x" by (simp add: n_def)
  finally have le: "(2::real) ^ ilog2 n \<le> x" .
  have "(2::real) ^ ilog2 n < 2 ^ k" using le assms(2) by linarith
  then have "ilog2 n < k" by simp
  then show ?thesis using True by (simp add: expo_def n_def)
qed

lemma expo_lower:
  assumes "1 \<le> x"
  shows "0 \<le> expo x" and "2 powi (expo x) \<le> x"
proof -
  define n where "n = \<lfloor>x\<rfloor>"
  have n1: "1 \<le> n" using assms by (simp add: n_def le_floor_iff)
  have e: "expo x = int (ilog2 n)" using assms by (simp add: expo_def n_def)
  show "0 \<le> expo x" by (simp add: e)
  have "(2::int) ^ ilog2 n \<le> n" using ilog2_bounds [OF n1] by simp
  then have "(2::real) ^ ilog2 n \<le> of_int n" by (metis of_int_le_iff of_int_numeral of_int_power)
  also have "of_int n \<le> x" by (simp add: n_def)
  finally show "2 powi (expo x) \<le> x" by (simp add: e)
qed

lemma rne_cases: "rne q = \<lfloor>q\<rfloor> \<or> (rne q = \<lfloor>q\<rfloor> + 1 \<and> of_int \<lfloor>q\<rfloor> + 1 / 2 \<le> q)"
  by (auto simp: rne_def Let_def)

lemma rne_ge:
  assumes "of_int N \<le> q"
  shows "N \<le> rne q"
proof -
  have "N \<le> \<lfloor>q\<rfloor>" using assms by (simp add: le_floor_iff)
  then show ?thesis using rne_cases [of q] by auto
qed

lemma rne_le:
  assumes "q \<le> of_int N"
  shows "rne q \<le> N"
proof -
  have f: "\<lfloor>q\<rfloor> \<le> N" using assms by (simp add: floor_le_iff)
  show ?thesis
  proof (cases "rne q = \<lfloor>q\<rfloor>")
    case True
    then show ?thesis using f by simp
  next
    case False
    then have r: "rne q = \<lfloor>q\<rfloor> + 1" and h: "of_int \<lfloor>q\<rfloor> + 1 / 2 \<le> q"
      using rne_cases [of q] by auto
    have "of_int \<lfloor>q\<rfloor> < (of_int N :: real)" using h assms by linarith
    then have "\<lfloor>q\<rfloor> < N" by simp
    then show ?thesis using r by simp
  qed
qed

lemma rne_double:
  assumes "0 \<le> q"
  shows "of_int (rne q) \<le> 2 * q"
proof -
  have f0: "0 \<le> \<lfloor>q\<rfloor>" using assms by simp
  have fq: "of_int \<lfloor>q\<rfloor> \<le> q" by simp
  show ?thesis
  proof (cases "rne q = \<lfloor>q\<rfloor>")
    case True
    have "of_int (rne q) \<le> q" using True fq by simp
    then show ?thesis using assms by linarith
  next
    case False
    then have r: "rne q = \<lfloor>q\<rfloor> + 1" and h: "of_int \<lfloor>q\<rfloor> + 1 / 2 \<le> q"
      using rne_cases [of q] by auto
    have z: "(0::real) \<le> of_int \<lfloor>q\<rfloor>" using f0 by simp
    have "of_int (rne q) = of_int \<lfloor>q\<rfloor> + (1::real)" using r by simp
    then show ?thesis using z h by linarith
  qed
qed


lemma f32_nonneg:
  assumes "0 \<le> x"
  shows "0 \<le> f32 x"
proof (cases "x = 0")
  case True
  then show ?thesis by (simp add: f32_def)
next
  case False
  define u :: real where "u = 2 powi (max (expo \<bar>x\<bar>) (- 126) - 23)"
  have u: "0 < u" by (simp add: u_def)
  have "of_int 0 \<le> x / u" using assms u by simp
  then have "0 \<le> rne (x / u)" by (rule rne_ge)
  then show ?thesis using False u by (simp add: f32_def Let_def u_def [symmetric])
qed

lemma f32_le_double:
  assumes "0 \<le> x"
  shows "f32 x \<le> 2 * x"
proof (cases "x = 0")
  case True
  then show ?thesis by (simp add: f32_def)
next
  case False
  define u :: real where "u = 2 powi (max (expo \<bar>x\<bar>) (- 126) - 23)"
  have u: "0 < u" by (simp add: u_def)
  have "0 \<le> x / u" using assms u by simp
  then have "of_int (rne (x / u)) \<le> 2 * (x / u)" by (rule rne_double)
  then have "of_int (rne (x / u)) * u \<le> 2 * (x / u) * u"
    using u by (intro mult_right_mono) simp_all
  then show ?thesis using False u by (simp add: f32_def Let_def u_def [symmetric])
qed

text \<open>The unit in the last place of a positive x below 2 ^ (24 - j) divides 1 / 2 ^ j.\<close>

lemma ulp_small:
  assumes "0 < x" and "x < 2 ^ (24 - j)" and "j \<le> 24"
  shows "\<exists>m. j \<le> m \<and> (2 :: real) powi (max (expo \<bar>x\<bar>) (- 126) - 23) = 1 / 2 ^ m"
proof -
  define e where "e = max (expo \<bar>x\<bar>) (- 126)"
  have "expo x < int (24 - j)" using assms(1) assms(2) by (rule expo_less)
  then have "e \<le> 23 - int j" using assms(1) assms(3) by (simp add: e_def)
  then have m: "j \<le> nat (23 - e)" by simp
  have "(2 :: real) powi (e - 23) = 2 powi (- int (nat (23 - e)))"
    using \<open>e \<le> 23 - int j\<close> by simp
  also have "\<dots> = 1 / 2 ^ nat (23 - e)"
    by (simp only: power_int_minus_divide power_int_of_nat)
  finally show ?thesis using m unfolding e_def by blast
qed

lemma f32_le_dyadic:
  assumes "0 \<le> x" and "x \<le> of_int B / 2 ^ j" and "x < 2 ^ (24 - j)" and "j \<le> 24"
  shows "f32 x \<le> of_int B / 2 ^ j"
proof (cases "x = 0")
  case True
  then show ?thesis using assms(2) by (simp add: f32_def)
next
  case False
  then have pos: "0 < x" using assms(1) by simp
  obtain m where m: "j \<le> m"
    and u: "(2 :: real) powi (max (expo \<bar>x\<bar>) (- 126) - 23) = 1 / 2 ^ m"
    using ulp_small [OF pos assms(3) assms(4)] by blast
  have s: "(2 :: real) ^ m = 2 ^ j * 2 ^ (m - j)" using m by (simp flip: power_add)
  have "x * 2 ^ m \<le> (of_int B / 2 ^ j) * 2 ^ m"
    using assms(2) by (intro mult_right_mono) simp_all
  also have "\<dots> = of_int (B * 2 ^ (m - j))" by (simp add: s)
  finally have "rne (x * 2 ^ m) \<le> B * 2 ^ (m - j)" by (rule rne_le)
  then have "(of_int (rne (x * 2 ^ m)) :: real) \<le> of_int (B * 2 ^ (m - j))"
    by (simp only: of_int_le_iff)
  then have "of_int (rne (x * 2 ^ m)) / 2 ^ m \<le> (of_int (B * 2 ^ (m - j)) :: real) / 2 ^ m"
    by (intro divide_right_mono) simp_all
  also have "\<dots> = of_int B / 2 ^ j" by (simp add: s)
  finally show ?thesis using False by (simp add: f32_def Let_def u)
qed

lemma f32_ge_dyadic:
  assumes "0 < x" and "of_int B / 2 ^ j \<le> x" and "x < 2 ^ (24 - j)" and "j \<le> 24"
  shows "of_int B / 2 ^ j \<le> f32 x"
proof -
  have ne: "x \<noteq> 0" using assms(1) by simp
  obtain m where m: "j \<le> m"
    and u: "(2 :: real) powi (max (expo \<bar>x\<bar>) (- 126) - 23) = 1 / 2 ^ m"
    using ulp_small [OF assms(1) assms(3) assms(4)] by blast
  have s: "(2 :: real) ^ m = 2 ^ j * 2 ^ (m - j)" using m by (simp flip: power_add)
  have "(of_int B / 2 ^ j) * 2 ^ m \<le> x * 2 ^ m"
    using assms(2) by (intro mult_right_mono) simp_all
  moreover have "(of_int B / 2 ^ j) * (2 :: real) ^ m = of_int (B * 2 ^ (m - j))" by (simp add: s)
  ultimately have "of_int (B * 2 ^ (m - j)) \<le> x * 2 ^ m" by simp
  then have "B * 2 ^ (m - j) \<le> rne (x * 2 ^ m)" by (rule rne_ge)
  then have "(of_int (B * 2 ^ (m - j)) :: real) \<le> of_int (rne (x * 2 ^ m))"
    by (simp only: of_int_le_iff)
  then have "(of_int (B * 2 ^ (m - j)) :: real) / 2 ^ m \<le> of_int (rne (x * 2 ^ m)) / 2 ^ m"
    by (intro divide_right_mono) simp_all
  moreover have "(of_int (B * 2 ^ (m - j)) :: real) / 2 ^ m = of_int B / 2 ^ j" by (simp add: s)
  ultimately show ?thesis using ne by (simp add: f32_def Let_def u)
qed

lemma f32_exact_dyadic:
  assumes "0 \<le> B" and "of_int B / 2 ^ j < (2 :: real) ^ (24 - j)" and "j \<le> 24"
  shows "f32 (of_int B / 2 ^ j) = of_int B / 2 ^ j"
proof (cases "B = 0")
  case True
  then show ?thesis by (simp add: f32_def)
next
  case False
  then have pos: "0 < (of_int B :: real) / 2 ^ j" using assms(1) by simp
  have "f32 (of_int B / 2 ^ j) \<le> of_int B / 2 ^ j"
    using pos assms(2) assms(3) by (intro f32_le_dyadic) simp_all
  moreover have "of_int B / 2 ^ j \<le> f32 (of_int B / 2 ^ j)"
    using pos assms(2) assms(3) by (intro f32_ge_dyadic) simp_all
  ultimately show ?thesis by simp
qed

lemma f32_exact_int:
  assumes "0 \<le> B" and "B < 16777216"
  shows "f32 (of_int B) = of_int B"
  using f32_exact_dyadic [of B 0] assms by simp

lemma f32_le_int:
  assumes "0 \<le> x" and "x \<le> of_int B" and "x < 16777216"
  shows "f32 x \<le> of_int B"
  using f32_le_dyadic [of x B 0] assms by simp

lemma f32_ge_one:
  assumes "1 \<le> x"
  shows "1 \<le> f32 x"
proof -
  define e where "e = expo x"
  have e0: "0 \<le> e" and lo: "2 powi e \<le> x" unfolding e_def by (rule expo_lower [OF assms])+
  have ax: "\<bar>x\<bar> = x" and ne: "x \<noteq> 0" using assms by simp_all
  have m: "max e (- 126) = e" using e0 by simp
  define u :: real where "u = 2 powi (e - 23)"
  have u: "0 < u" by (simp add: u_def)
  have p: "(2 :: real) powi e = of_int (2 ^ 23) * u"
    unfolding u_def using power_int_add [of "2 :: real" 23 "e - 23"] by simp
  have "of_int (2 ^ 23) \<le> x / u" using lo u by (simp add: p pos_le_divide_eq)
  then have "2 ^ 23 \<le> rne (x / u)" by (rule rne_ge)
  then have "(of_int (2 ^ 23) :: real) \<le> of_int (rne (x / u))" by (simp only: of_int_le_iff)
  then have "of_int (2 ^ 23) * u \<le> of_int (rne (x / u)) * u"
    using u by (intro mult_right_mono) simp_all
  then have "2 powi e \<le> of_int (rne (x / u)) * u" by (simp only: p)
  moreover have "(1 :: real) \<le> 2 powi e" using e0 by simp
  moreover have "f32 x = of_int (rne (x / u)) * u"
    using ne by (simp add: f32_def Let_def ax e_def [symmetric] m u_def)
  ultimately show ?thesis by simp
qed





lemma uint_f2u32:
  assumes "0 \<le> x" and "x < 4294967296"
  shows "uint (f2u32 x) = \<lfloor>x\<rfloor>"
proof -
  have "0 \<le> \<lfloor>x\<rfloor>" using assms(1) by simp
  moreover have "\<lfloor>x\<rfloor> < 4294967296" using assms(2) by (simp add: floor_less_iff)
  ultimately have "\<lfloor>x\<rfloor> mod 4294967296 = \<lfloor>x\<rfloor>" by simp
  then show ?thesis
    using assms(1) by (simp add: f2u32_def truncf_def uint_word_of_int)
qed

lemma toFloat_exact:
  assumes "uint w < 16777216"
  shows "toFloat w = of_int (uint w)"
  unfolding toFloat_def using assms by (intro f32_exact_int) simp_all

lemma toFloat_ge_one:
  assumes "w \<noteq> 0"
  shows "1 \<le> toFloat w"
proof -
  have "uint w \<noteq> 0" using assms by (simp add: uint_0_iff)
  moreover have "0 \<le> uint w" by simp
  ultimately have "1 \<le> uint w" by linarith
  then have "(1 :: real) \<le> of_int (uint w)" by (simp only: of_int_1_le_iff)
  then show ?thesis unfolding toFloat_def by (rule f32_ge_one)
qed

subsection \<open>Zero-length moves\<close>

text \<open>C4. A move whose step count is 0 returns at once: the whole state is what it
  was, so no direction or enable pin is written, \<open>movingMotor\<close> and \<open>abortRequested\<close>
  keep their values, and nothing (no MOVING START, no MOVING END) is printed.\<close>

theorem zero_steps_noop:
  "degToSteps m deg s = 0 \<Longrightarrow> moveWithProfile m deg dps rampMsArg s = s"
  by (simp add: moveWithProfile_def)

theorem zero_steps_noop_witness:
  "degToSteps 1 0 initialState = 0
   \<and> moveWithProfile 1 0 90 0 initialState = initialState"
proof -
  have h: "degToSteps 1 0 initialState = 0"
    by (simp add: degToSteps_def lroundf_def initialState_def toFloat_def f32_eval
        cong: let_weak_cong)
  show ?thesis using h zero_steps_noop [OF h, of 90 0] by simp
qed

subsection \<open>Tokens and dispatch\<close>

lemma strtokAll_Nil: "strtokAll [] = []"
  by (simp add: strtokAll.simps)

lemma strtokAll_single:
  assumes "\<forall>c \<in> set l. \<not> isDelim c" and "l \<noteq> []"
  shows "strtokAll l = [l]"
proof -
  obtain c cs where l: "l = c # cs" using assms(2) by (cases l) auto
  have d: "dropWhile isDelim (c # cs) = c # cs" using assms(1) l by simp
  have t: "takeWhile (\<lambda>x. \<not> isDelim x) (c # cs) = c # cs"
    using assms(1) l by (simp add: takeWhile_eq_all_conv)
  have r: "dropWhile (\<lambda>x. \<not> isDelim x) cs = []"
    using assms(1) l by simp
  have "strtokAll (c # cs) = [c # cs]"
    by (subst strtokAll.simps) (simp only: d t r strtokAll_Nil list.case)
  then show ?thesis by (simp add: l)
qed

lemma toupper_delim: "isDelim c \<Longrightarrow> toupper c = c"
  unfolding isDelim_def by (elim disjE) (simp_all add: toupper_def)

lemma upper_nodelim:
  assumes "\<forall>c \<in> set (toUpperCase l). \<not> isDelim c"
  shows "\<forall>c \<in> set l. \<not> isDelim c"
proof
  fix c assume c: "c \<in> set l"
  show "\<not> isDelim c"
  proof
    assume d: "isDelim c"
    have "toupper c \<in> toupper ` set l" using c by (rule imageI)
    then have "c \<in> set (toUpperCase l)"
      using toupper_delim [OF d] by (simp add: toUpperCase_def)
    then show False using assms d by blast
  qed
qed

lemma oneWord_props:
  assumes "oneWord u"
  shows "\<forall>c \<in> set u. \<not> isDelim c" and "length u \<le> 5" and "u \<noteq> []"
  using assms unfolding oneWord_def
  by (elim disjE; simp add: isDelim_def)+

text \<open>A one-word command is a single token, so a line with two tokens or more is none.\<close>

lemma oneWord_tokens:
  assumes "oneWord (toUpperCase l)" and "6 \<le> n"
  shows "strtokAll (toCharArray l n) = [l]"
proof -
  note w = oneWord_props [OF assms(1)]
  have "length l \<le> 5" and ne: "l \<noteq> []"
    using w(2) w(3) by (auto simp: toUpperCase_def)
  then have "toCharArray l n = l" using assms(2) by (simp add: toCharArray_def)
  then show ?thesis using strtokAll_single [OF upper_nodelim [OF w(1)] ne] by simp
qed

lemma parse_dispatch:
  assumes "strtokAll (toCharArray (trim line) n) = cmd # a # args" and "6 \<le> n"
  shows "parseAndExecBuf n line s = execCmd cmd (a # args) s"
proof -
  have ne: "trim line \<noteq> []"
  proof
    assume "trim line = []"
    then show False using assms(1) by (simp add: toCharArray_def strtokAll_Nil)
  qed
  have "\<not> oneWord (toUpperCase (trim line))"
    using oneWord_tokens [of "trim line" n] assms by auto
  then show ?thesis
    using ne assms(1) by (simp add: parseAndExecBuf_def oneWord_def Let_def)
qed

subsection \<open>Case of the keyword\<close>

text \<open>C2. The claim is that a keyword in lower case has the effect of the same keyword
  in upper case. The firmware upper-cases a copy of the line (line 209, under the comment
  that case shall make no difference) and uses it for the one-word commands only; the
  tokens are cut from the line as typed and compared with \<^verbatim>\<open>strcmp\<close>. So
  \<^verbatim>\<open>move 3 45 90\<close> and \<^verbatim>\<open>stop 2\<close> only print the unknown-command message, while
  \<^verbatim>\<open>STOP 2\<close> switches the enable pin of motor 2 (pin 7) off and acknowledges.\<close>

theorem lowercase_keyword_unknown:
  "parseAndExec ''move 3 45 90'' initialState
     = initialState\<lparr>trace := [SerialPrintln (Str ''Bilinmeyen komut. 'HELP' yaz.'')]\<rparr>
   \<and> parseAndExec ''stop 2'' initialState
     = initialState\<lparr>trace := [SerialPrintln (Str ''Bilinmeyen komut. 'HELP' yaz.'')]\<rparr>
   \<and> trace (parseAndExec ''STOP 2'' initialState)
     = [DigitalWrite 7 HIGH, SerialPrint (Str ''STOP: M''), SerialPrintln (Num 2)]"
  by (simp add: parse_defs str_defs cmdSTOP_def prim_defs initialState_def)

subsection \<open>Setter commands\<close>

text \<open>C5. The claim is that \<^verbatim>\<open>RAMP 99999\<close> stores 5000 in \<open>rampMs\<close>, that \<^verbatim>\<open>REP 0\<close>
  stores 1 in \<open>repeats\<close>, and that \<^verbatim>\<open>S 10\<close> leaves the steps per revolution as they were.
  The last two hold from every state. The first fails on the 16-bit \<^verbatim>\<open>int\<close> of the target:
  \<^verbatim>\<open>atoi\<close> returns the low 16 bits of 99999, the negative number -31073, line 350 raises
  it to 0, and the clamp of line 351 (\<^verbatim>\<open>if (v > 5000) v = 5000\<close>) never sees it; the ramp is
  switched off where the clamp was meant to give the longest ramp. A number that fits an
  \<^verbatim>\<open>int\<close>, such as 9999, is clamped to 5000. \<^verbatim>\<open>S\<close>, which reads its number with \<^verbatim>\<open>atol\<close>,
  has a range check that works for such numbers.\<close>

theorem ramp_99999_stores_zero:
  "atoi ''99999'' = - 31073
   \<and> rampMs (parseAndExec ''RAMP 99999'' s) = 0
   \<and> rampMs (parseAndExec ''RAMP 9999'' s) = 5000
   \<and> repeats (parseAndExec ''REP 0'' s) = 1
   \<and> parseAndExec ''S 10'' s = s
   \<and> stepsPerRev (parseAndExec ''S 10'' initialState) ! nat (aktifMotor initialState - 1) = 1600"
  by (simp add: parse_defs str_defs cmdRAMP_def cmdREP_def cmdS_def prim_defs initialState_def)

subsection \<open>STOP with a motor number out of range\<close>




subsection \<open>The step delay\<close>

lemma period_bounds:
  fixes x :: real
  defines "p \<equiv> max 2 (f32 (1000000 / max 1 x))"
  shows "2 \<le> p" and "p \<le> 1000000"
proof -
  show "2 \<le> p" by (simp add: p_def)
  have q: "1000000 / max 1 x \<le> 1000000 / 1"
    by (rule divide_left_mono) simp_all
  have q0: "0 \<le> 1000000 / max 1 x" by simp
  have "f32 (1000000 / max 1 x) \<le> of_int 1000000"
    using q0 q by (intro f32_le_int) simp_all
  then show "p \<le> 1000000" by (simp add: p_def)
qed

lemma dpsToDelayUs_max:
  "dpsToDelayUs dps m s =
     f2u32 (max 2 (f32 (1000000 / max 1 (f32 ((if dps \<le> 0 then 1 else dps)
       * f32 (toFloat (stepsPerRev s ! nat (m - 1)) / 360))))))"
  by (simp add: dpsToDelayUs_def Let_def max_def not_less)

text \<open>C7 as claimed: the delay is 1000000 / stepsPerSecond rounded to the nearest
  microsecond. With 360 steps per revolution and 1.5 degrees per second the steps per
  second are 1.5 and the quotient, as a binary32 number, is 666666.6875; the firmware
  returns 666666, the formula gives 666667. With the values that the firmware starts
  with (1600 steps per revolution, 90 degrees per second) the quotient is 2500 in exact
  arithmetic; in binary32 the steps per degree are just above 40/9, the quotient is just
  below 2500 and the firmware returns 2499.\<close>

theorem dpsToDelayUs_round_counterexample:
  "dpsToDelayUs (3 / 2) 1 (initialState\<lparr>stepsPerRev := [360, 1600, 1600, 1600, 1600]\<rparr>) = 666666
   \<and> specDelayMicrosForSpeed (3 / 2) 360 = 666667
   \<and> dpsToDelayUs 90 1 initialState = 2499
   \<and> specDelayMicrosForSpeed 90 1600 = 2500"
  by (simp add: dpsToDelayUs_def f2u32_def truncf_def initialState_def toFloat_def
      specDelayMicrosForSpeed_def round_def f32_eval cong: let_weak_cong)

text \<open>C7 as amended: the delay is the binary32 quotient 1000000 / stepsPerSecond, raised
  to 2 when smaller, with its fraction cut off (the cast to \<^verbatim>\<open>uint32_t\<close>), where
  stepsPerSecond is \<open>max 1 (dps' * (stepsPerRev / 360))\<close>, every operation rounded to
  binary32, and \<open>dps'\<close> is 1 for \<open>dps \<le> 0\<close>. The result lies between 2 and 1000000.\<close>

theorem dpsToDelayUs_truncates:
  "uint (dpsToDelayUs dps m s)
     = \<lfloor>max 2 (f32 (1000000 / max 1 (f32 ((if dps \<le> 0 then 1 else dps)
         * f32 (toFloat (stepsPerRev s ! nat (m - 1)) / 360)))))\<rfloor>
   \<and> 2 \<le> uint (dpsToDelayUs dps m s)
   \<and> uint (dpsToDelayUs dps m s) \<le> 1000000"
proof -
  define p :: real where
    "p = max 2 (f32 (1000000 / max 1 (f32 ((if dps \<le> 0 then 1 else dps)
           * f32 (toFloat (stepsPerRev s ! nat (m - 1)) / 360)))))"
  have lo: "2 \<le> p" and hi: "p \<le> 1000000"
    unfolding p_def by (rule period_bounds)+
  have u: "uint (dpsToDelayUs dps m s) = \<lfloor>p\<rfloor>"
    unfolding dpsToDelayUs_max p_def [symmetric]
    using lo hi by (intro uint_f2u32) simp_all
  have "2 \<le> \<lfloor>p\<rfloor>" using lo by (simp add: le_floor_iff)
  moreover have "\<lfloor>p\<rfloor> \<le> 1000000" using hi by (simp add: floor_le_iff)
  ultimately show ?thesis using u by (simp add: p_def)
qed

subsection \<open>The token buffer\<close>

text \<open>C9 as claimed: the interpreter takes its tokens from the whole line, for every line
  up to the 120 characters that \<^verbatim>\<open>loop\<close> lets through. The line below has 65 characters:
  \<^verbatim>\<open>RAMP\<close>, 57 blanks, \<^verbatim>\<open>1234\<close>. Received byte by byte and ended by a newline, it
  reaches the interpreter whole; the interpreter copies 63 characters into its buffer
  and stores 12. With a buffer that holds the whole line the value stored is 1234.\<close>

theorem long_line_truncated_counterexample:
  "length ''RAMP                                                         1234'' = 65
   \<and> rampMs (snd (loop
        (''RAMP                                                         1234'' @ [CHR 0x0A])
        [] initialState)) = 12
   \<and> rampMs (parseAndExec
        ''RAMP                                                         1234'' initialState) = 12
   \<and> rampMs (parseAndExecBuf 121
        ''RAMP                                                         1234'' initialState) = 1234"
  by (simp add: parse_defs str_defs cmdRAMP_def prim_defs initialState_def)

text \<open>C9 as amended: for every line of at most 63 characters after trimming, the tokens
  are those of the whole line, and the command does what it would do with any larger
  buffer.\<close>

theorem untruncated_short_lines:
  assumes "length (trim line) \<le> 63" and "64 \<le> n"
  shows "parseAndExecBuf n line s = parseAndExec line s
         \<and> strtokAll (toCharArray (trim line) 64) = strtokAll (trim line)"
proof -
  have a: "toCharArray (trim line) n = trim line"
    using assms by (simp add: toCharArray_def)
  have b: "toCharArray (trim line) 64 = trim line"
    using assms by (simp add: toCharArray_def)
  show ?thesis
    by (simp add: parseAndExec_def parseAndExecBuf_def Let_def a b)
qed

theorem untruncated_short_lines_witness:
  "length (trim ''RAMP 1234'') \<le> 63 \<and> (64 :: nat) \<le> 121
   \<and> parseAndExecBuf 121 ''RAMP 1234'' initialState = parseAndExec ''RAMP 1234'' initialState
   \<and> rampMs (parseAndExec ''RAMP 1234'' initialState) = 1234"
proof -
  have a: "length (trim ''RAMP 1234'') \<le> 63" by (simp add: str_defs)
  have b: "(64 :: nat) \<le> 121" by simp
  have c: "rampMs (parseAndExec ''RAMP 1234'' initialState) = 1234"
    by (simp add: parse_defs str_defs cmdRAMP_def prim_defs initialState_def)
  show ?thesis
    using a c untruncated_short_lines [OF a b, of initialState] by simp
qed

subsection \<open>The pulse loops\<close>

lemma checkedBefore_append:
  "checkedBefore pe prev (xs @ ys)
     = (checkedBefore pe prev xs
        \<and> checkedBefore pe (if xs = [] then prev else Some (last xs)) ys)"
  by (induction xs arbitrary: prev) auto

lemma checkedBefore_free: "pe \<notin> set xs \<Longrightarrow> checkedBefore pe prev xs"
  by (induction xs arbitrary: prev) auto

lemma dropWhile_absent:
  "x \<notin> set xs \<Longrightarrow> dropWhile (\<lambda>e. e \<noteq> x) (xs @ ys) = dropWhile (\<lambda>e. e \<noteq> x) ys"
  by (induction xs) auto

lemma dropWhile_present:
  "x \<in> set xs \<Longrightarrow> dropWhile (\<lambda>e. e \<noteq> x) (xs @ ys) = dropWhile (\<lambda>e. e \<noteq> x) xs @ ys"
  by (induction xs) auto

lemma segOK_Nil: "segOK pe f [] f"
  by (simp add: segOK_def)

lemma segOK_append:
  assumes "segOK pe f0 xs f1" and "segOK pe f1 ys f2"
  shows "segOK pe f0 (xs @ ys) f2"
proof (cases "AbortRead True \<in> set xs")
  case True
  then have f1 using assms(1) by (simp add: segOK_def)
  then have ys: "pe \<notin> set ys" and f2 using assms(2) by (simp_all add: segOK_def)
  show ?thesis
    using assms True ys \<open>f2\<close>
    by (simp add: segOK_def checkedBefore_append dropWhile_present checkedBefore_free)
next
  case False
  show ?thesis
    using assms False
    by (auto simp: segOK_def checkedBefore_append dropWhile_absent)
qed

lemma segOK_free:
  "pe \<notin> set xs \<Longrightarrow> AbortRead True \<notin> set xs \<Longrightarrow> segOK pe f xs f"
  by (auto simp: segOK_def checkedBefore_free dest: set_dropWhileD)

lemma segOK_read:
  "f0 \<longrightarrow> v \<Longrightarrow> segOK (DigitalWrite pin HIGH) f0 [AbortRead v] v"
  by (auto simp: segOK_def)

lemma segOK_pulse:
  "segOK (DigitalWrite pin HIGH) False
     [AbortRead False, DigitalWrite pin HIGH, DelayMicroseconds a, DigitalWrite pin LOW,
      DelayMicroseconds b] False"
  by (simp add: segOK_def)

lemma readAbort_facts:
  assumes "readAbort s = (v, s1)"
  shows "trace s1 = trace s @ [AbortRead v]" and "abortRequested s1 = v"
    and "abortRequested s \<longrightarrow> v" and "aktifMotor s1 = aktifMotor s"
    and "asyncAbort s1 = tl (asyncAbort s)"
    and "v = (abortRequested s \<or> (asyncAbort s \<noteq> [] \<and> hd (asyncAbort s)))"
  using assms by (auto simp: readAbort_def Let_def split: list.splits)

lemma pulseOnce_facts:
  "trace (pulseOnce pin d s)
     = trace s @ [DigitalWrite pin HIGH, DelayMicroseconds (d div 2), DigitalWrite pin LOW,
                  DelayMicroseconds (d - d div 2)]"
  "abortRequested (pulseOnce pin d s) = abortRequested s"
  "aktifMotor (pulseOnce pin d s) = aktifMotor s"
  "asyncAbort (pulseOnce pin d s) = asyncAbort s"
  by (simp_all add: pulseOnce_def digitalWrite_def delayMicroseconds_def Let_def)



lemma forPulses_seg:
  "\<exists>evs. trace (forPulses pin d i n s) = trace s @ evs
         \<and> segOK (DigitalWrite pin HIGH) (abortRequested s) evs
              (abortRequested (forPulses pin d i n s))"
proof (induction pin d i n s rule: forPulses.induct)
  case (1 pin d i n s)
  show ?case
  proof (cases "i < n")
    case False
    then have "forPulses pin d i n s = s" by (simp add: forPulses.simps)
    then show ?thesis by (simp add: segOK_Nil)
  next
    case True
    obtain v s1 where r: "readAbort s = (v, s1)" by (cases "readAbort s")
    note rf = readAbort_facts [OF r]
    show ?thesis
    proof (cases v)
      case True
      have "forPulses pin d i n s = s1"
        using \<open>i < n\<close> r True by (simp add: forPulses.simps)
      then show ?thesis
        using rf(1) rf(2) True segOK_read [of "abortRequested s" True pin] by simp
    next
      case False
      define s2 where "s2 = pulseOnce pin (d i) s1"
      have eq: "forPulses pin d i n s = forPulses pin d (Suc i) n s2"
        using \<open>i < n\<close> r False by (simp add: forPulses.simps s2_def)
      from "1.IH" [OF \<open>i < n\<close> r [symmetric] False]
      obtain evs where e: "trace (forPulses pin d (Suc i) n s2) = trace s2 @ evs"
        and g: "segOK (DigitalWrite pin HIGH) (abortRequested s2) evs
                  (abortRequested (forPulses pin d (Suc i) n s2))"
        unfolding s2_def by blast
      have f0: "\<not> abortRequested s" using rf(3) False by simp
      have f2: "\<not> abortRequested s2" using rf(2) False by (simp add: s2_def pulseOnce_facts)
      have t2: "trace s2 = trace s @ [AbortRead False, DigitalWrite pin HIGH,
                  DelayMicroseconds (d i div 2), DigitalWrite pin LOW,
                  DelayMicroseconds (d i - d i div 2)]"
        using rf(1) False by (simp add: s2_def pulseOnce_facts)
      have "segOK (DigitalWrite pin HIGH) False
              ([AbortRead False, DigitalWrite pin HIGH, DelayMicroseconds (d i div 2),
                DigitalWrite pin LOW, DelayMicroseconds (d i - d i div 2)] @ evs)
              (abortRequested (forPulses pin d (Suc i) n s2))"
        using segOK_append [OF segOK_pulse] g f2 by simp
      then show ?thesis
        using e t2 f0 eq by simp
    qed
  qed
qed

lemma forPulses_aktifMotor: "aktifMotor (forPulses pin d i n s) = aktifMotor s"
proof (induction pin d i n s rule: forPulses.induct)
  case (1 pin d i n s)
  show ?case
  proof (cases "i < n")
    case False
    then show ?thesis by (simp add: forPulses.simps)
  next
    case True
    obtain v s1 where r: "readAbort s = (v, s1)" by (cases "readAbort s")
    show ?thesis
    proof (cases v)
      case True
      then show ?thesis
        using \<open>i < n\<close> r readAbort_facts(4) [OF r] by (simp add: forPulses.simps)
    next
      case False
      then show ?thesis
        using "1.IH" [OF \<open>i < n\<close> r [symmetric] False] \<open>i < n\<close> r readAbort_facts(4) [OF r]
        by (simp add: forPulses.simps pulseOnce_facts)
    qed
  qed
qed

lemma forPulses_count:
  assumes "\<not> abortRequested s" and "True \<notin> set (asyncAbort s)"
  shows "pulseCount pin (trace (forPulses pin d i n s)) = pulseCount pin (trace s) + (n - i)
         \<and> \<not> abortRequested (forPulses pin d i n s)
         \<and> True \<notin> set (asyncAbort (forPulses pin d i n s))"
  using assms
proof (induction pin d i n s rule: forPulses.induct)
  case (1 pin d i n s)
  show ?case
  proof (cases "i < n")
    case False
    then show ?thesis using "1.prems" by (simp add: forPulses.simps)
  next
    case True
    obtain v s1 where r: "readAbort s = (v, s1)" by (cases "readAbort s")
    note rf = readAbort_facts [OF r]
    have nv: "\<not> v"
      using rf(6) "1.prems" by (cases "asyncAbort s") auto
    define s2 where "s2 = pulseOnce pin (d i) s1"
    have eq: "forPulses pin d i n s = forPulses pin d (Suc i) n s2"
      using \<open>i < n\<close> r nv by (simp add: forPulses.simps s2_def)
    have a2: "\<not> abortRequested s2" using rf(2) nv by (simp add: s2_def pulseOnce_facts)
    have b2: "True \<notin> set (asyncAbort s2)"
      using rf(5) "1.prems"(2) by (cases "asyncAbort s") (auto simp: s2_def pulseOnce_facts)
    have c2: "pulseCount pin (trace s2) = pulseCount pin (trace s) + 1"
      using rf(1) by (simp add: s2_def pulseOnce_facts pulseCount_def)
    from "1.IH" [OF \<open>i < n\<close> r [symmetric] nv] a2 b2
    have "pulseCount pin (trace (forPulses pin d (Suc i) n s2))
            = pulseCount pin (trace s2) + (n - Suc i)
          \<and> \<not> abortRequested (forPulses pin d (Suc i) n s2)
          \<and> True \<notin> set (asyncAbort (forPulses pin d (Suc i) n s2))"
      unfolding s2_def by blast
    then show ?thesis using eq c2 \<open>i < n\<close> by simp
  qed
qed

lemma runProfile_seg:
  "\<exists>evs. trace (runProfile pin totalSteps tgtDelayUs rampMsArg s) = trace s @ evs
         \<and> segOK (DigitalWrite pin HIGH) (abortRequested s) evs
              (abortRequested (runProfile pin totalSteps tgtDelayUs rampMsArg s))"
proof (cases "rampMsArg = 0 \<or> totalSteps < 10")
  case True
  then have "runProfile pin totalSteps tgtDelayUs rampMsArg s
               = forPulses pin (\<lambda>i. tgtDelayUs) 0 (unat totalSteps) s"
    by (simp add: runProfile_def)
  then show ?thesis using forPulses_seg [of pin "\<lambda>i. tgtDelayUs" 0 "unat totalSteps" s] by simp
next
  case False
  define rs where "rs = rampStepsFor totalSteps tgtDelayUs rampMsArg"
  define sd where "sd = startDelayFor tgtDelayUs"
  define s1 where "s1 = forPulses pin (accelDelay rs sd tgtDelayUs) 0 (unat rs) s"
  define s2 where "s2 = forPulses pin (\<lambda>i. tgtDelayUs) 0 (unat (totalSteps - rs - rs)) s1"
  define s3 where "s3 = forPulses pin (decelDelay rs sd tgtDelayUs) 0 (unat rs) s2"
  have r: "runProfile pin totalSteps tgtDelayUs rampMsArg s = s3"
    using False by (simp add: runProfile_def Let_def s3_def s2_def s1_def sd_def rs_def)
  obtain e1 where t1: "trace s1 = trace s @ e1"
    and g1: "segOK (DigitalWrite pin HIGH) (abortRequested s) e1 (abortRequested s1)"
    using forPulses_seg [of pin "accelDelay rs sd tgtDelayUs" 0 "unat rs" s]
    unfolding s1_def by blast
  obtain e2 where t2: "trace s2 = trace s1 @ e2"
    and g2: "segOK (DigitalWrite pin HIGH) (abortRequested s1) e2 (abortRequested s2)"
    using forPulses_seg [of pin "\<lambda>i. tgtDelayUs" 0 "unat (totalSteps - rs - rs)" s1]
    unfolding s2_def by blast
  obtain e3 where t3: "trace s3 = trace s2 @ e3"
    and g3: "segOK (DigitalWrite pin HIGH) (abortRequested s2) e3 (abortRequested s3)"
    using forPulses_seg [of pin "decelDelay rs sd tgtDelayUs" 0 "unat rs" s2]
    unfolding s3_def by blast
  have "trace s3 = trace s @ (e1 @ e2 @ e3)" using t1 t2 t3 by simp
  moreover have "segOK (DigitalWrite pin HIGH) (abortRequested s) (e1 @ e2 @ e3) (abortRequested s3)"
    by (rule segOK_append [OF g1 segOK_append [OF g2 g3]])
  ultimately show ?thesis unfolding r by blast
qed

lemma pins_distinct:
  assumes "1 \<le> m" and "m \<le> 5"
  shows "dir (motorPins m) \<noteq> pul (motorPins m)" and "ena (motorPins m) \<noteq> pul (motorPins m)"
proof -
  have "m = 1 \<or> m = 2 \<or> m = 3 \<or> m = 4 \<or> m = 5" using assms by arith
  then show "dir (motorPins m) \<noteq> pul (motorPins m)" and "ena (motorPins m) \<noteq> pul (motorPins m)"
    by (elim disjE; simp add: motorPins_def MOT_def)+
qed

subsection \<open>Abort during a move\<close>

text \<open>C1. For every move that starts (motor 1 to 5, a step count other than 0) and every
  behaviour of the environment, in the events \<open>new\<close> that the move appends to the log:
  every pulse on the motor's pulse pin comes directly after a read of \<open>abortRequested\<close>
  that returned false; from the first read that returned true on, no pulse follows;
  \<open>movingMotor\<close> is 0 when the move returns; and the last three events print
  \<^verbatim>\<open>MOVING M<m> END\<close>.\<close>

theorem abort_stops_pulses:
  assumes "1 \<le> m" and "m \<le> 5" and "degToSteps m deg s \<noteq> 0"
  shows
    "(let s' = moveWithProfile m deg dps rampMsArg s;
          new = drop (length (trace s)) (trace s');
          pe = DigitalWrite (pul (motorPins m)) HIGH
      in checkedBefore pe None new
         \<and> pe \<notin> set (dropWhile (\<lambda>e. e \<noteq> AbortRead True) new)
         \<and> movingMotor s' = 0
         \<and> drop (length new - 3) new
             = [SerialPrint (Str ''MOVING M''), SerialPrint (Num m), SerialPrintln (Str '' END'')])"
proof -
  define p where "p = motorPins m"
  define pe where "pe = DigitalWrite (pul p) HIGH"
  define hdr where
    "hdr = [DigitalWrite (dir p) (directionFor deg), DigitalWrite (ena p) LOW,
            SerialPrint (Str ''MOVING M''), SerialPrint (Num m), SerialPrintln (Str '' START'')]"
  define ftr where
    "ftr = [SerialPrint (Str ''MOVING M''), SerialPrint (Num m), SerialPrintln (Str '' END'')]"
  define s5 where
    "s5 = serialPrintln (Str '' START'')
            (serialPrint (Num m) (serialPrint (Str ''MOVING M'')
              ((enaOn m (digitalWrite (dir p) (directionFor deg) s))
                 \<lparr>movingMotor := m, abortRequested := False\<rparr>)))"
  define s6 where
    "s6 = runProfile (pul p) (degToSteps m deg s) (dpsToDelayUs dps m s5) rampMsArg s5"
  define s' where "s' = moveWithProfile m deg dps rampMsArg s"
  have t5: "trace s5 = trace s @ hdr" and a5: "\<not> abortRequested s5"
    by (simp_all add: s5_def hdr_def serialPrintln_def serialPrint_def enaOn_def
        digitalWrite_def p_def)
  have r: "s' = serialPrintln (Str '' END'')
                  (serialPrint (Num m) (serialPrint (Str ''MOVING M'') (s6\<lparr>movingMotor := 0\<rparr>)))"
    using assms(3)
    by (simp add: s'_def moveWithProfile_def Let_def s6_def s5_def p_def)
  obtain evs where t6: "trace s6 = trace s5 @ evs"
    and g: "segOK pe (abortRequested s5) evs (abortRequested s6)"
    using runProfile_seg [of "pul p" "degToSteps m deg s" "dpsToDelayUs dps m s5" rampMsArg s5]
    unfolding s6_def pe_def by blast
  have t': "trace s' = trace s @ (hdr @ evs @ ftr)"
    using t5 t6 by (simp add: r ftr_def serialPrintln_def serialPrint_def)
  have mm: "movingMotor s' = 0"
    by (simp add: r serialPrintln_def serialPrint_def)
  have gh: "segOK pe False hdr False"
    using pins_distinct [OF assms(1) assms(2)]
    by (intro segOK_free) (auto simp: hdr_def pe_def p_def)
  have gf: "segOK pe (abortRequested s6) ftr (abortRequested s6)"
    by (intro segOK_free) (auto simp: ftr_def pe_def)
  have "segOK pe False (hdr @ evs @ ftr) (abortRequested s6)"
    using segOK_append [OF gh segOK_append [OF _ gf]] g a5 by simp
  then have c1: "checkedBefore pe None (hdr @ evs @ ftr)"
    and c2: "pe \<notin> set (dropWhile (\<lambda>e. e \<noteq> AbortRead True) (hdr @ evs @ ftr))"
    by (simp_all add: segOK_def)
  have c3: "drop (length (hdr @ evs @ ftr) - 3) (hdr @ evs @ ftr) = ftr"
    by (simp add: ftr_def)
  show ?thesis
    using c1 c2 c3 mm
    by (simp add: Let_def s'_def [symmetric] t' pe_def [symmetric] p_def [symmetric] ftr_def)
qed

theorem abort_stops_pulses_witness:
  "(1 :: int) \<le> 1 \<and> (1 :: int) \<le> 5
   \<and> degToSteps 1 1 (initialState\<lparr>asyncAbort := [False, False, True]\<rparr>) \<noteq> 0
   \<and> trace (moveWithProfile 1 1 90 0 (initialState\<lparr>asyncAbort := [False, False, True]\<rparr>))
       = [DigitalWrite 3 HIGH, DigitalWrite 4 LOW,
          SerialPrint (Str ''MOVING M''), SerialPrint (Num 1), SerialPrintln (Str '' START''),
          AbortRead False,
          DigitalWrite 2 HIGH, DelayMicroseconds 1249, DigitalWrite 2 LOW, DelayMicroseconds 1250,
          AbortRead False,
          DigitalWrite 2 HIGH, DelayMicroseconds 1249, DigitalWrite 2 LOW, DelayMicroseconds 1250,
          AbortRead True,
          SerialPrint (Str ''MOVING M''), SerialPrint (Num 1), SerialPrintln (Str '' END'')]
   \<and> checkedBefore (DigitalWrite 2 HIGH) None
         (trace (moveWithProfile 1 1 90 0 (initialState\<lparr>asyncAbort := [False, False, True]\<rparr>)))
   \<and> DigitalWrite 2 HIGH
         \<notin> set (dropWhile (\<lambda>e. e \<noteq> AbortRead True)
              (trace (moveWithProfile 1 1 90 0 (initialState\<lparr>asyncAbort := [False, False, True]\<rparr>))))
   \<and> movingMotor (moveWithProfile 1 1 90 0 (initialState\<lparr>asyncAbort := [False, False, True]\<rparr>)) = 0"
proof -
  define s0 where "s0 = initialState\<lparr>asyncAbort := [False, False, True]\<rparr>"
  have a: "(1 :: int) \<le> 1" and b: "(1 :: int) \<le> 5" by simp_all
  have c: "degToSteps 1 1 s0 \<noteq> 0"
    by (simp add: s0_def degToSteps_def lroundf_def initialState_def toFloat_def f32_eval
        cong: let_weak_cong)
  have t0: "trace s0 = []" by (simp add: s0_def initialState_def)
  have p: "pul (motorPins 1) = 2" by (simp add: motorPins_def MOT_def)
  have tr: "trace (moveWithProfile 1 1 90 0 s0)
       = [DigitalWrite 3 HIGH, DigitalWrite 4 LOW,
          SerialPrint (Str ''MOVING M''), SerialPrint (Num 1), SerialPrintln (Str '' START''),
          AbortRead False,
          DigitalWrite 2 HIGH, DelayMicroseconds 1249, DigitalWrite 2 LOW, DelayMicroseconds 1250,
          AbortRead False,
          DigitalWrite 2 HIGH, DelayMicroseconds 1249, DigitalWrite 2 LOW, DelayMicroseconds 1250,
          AbortRead True,
          SerialPrint (Str ''MOVING M''), SerialPrint (Num 1), SerialPrintln (Str '' END'')]"
    by (simp add: s0_def moveWithProfile_def runProfile_def forPulses.simps degToSteps_def
        dpsToDelayUs_def directionFor_def lroundf_def f2u32_def truncf_def toFloat_def
        initialState_def prim_defs f32_eval cong: let_weak_cong)
  have "checkedBefore (DigitalWrite 2 HIGH) None (trace (moveWithProfile 1 1 90 0 s0))
        \<and> DigitalWrite 2 HIGH
             \<notin> set (dropWhile (\<lambda>e. e \<noteq> AbortRead True) (trace (moveWithProfile 1 1 90 0 s0)))
        \<and> movingMotor (moveWithProfile 1 1 90 0 s0) = 0"
    using abort_stops_pulses [OF a b c, of 90 0]
    by (simp only: Let_def t0 p list.size drop_0) simp
  then show ?thesis using a b c tr unfolding s0_def by simp
qed

subsection \<open>The length of a profile\<close>

lemma rampSteps_raw_bounds:
  fixes tgtDelayUs :: uint32 and rampMsArg :: uint16
  assumes "tgtDelayUs \<noteq> 0"
  defines "v \<equiv> max 1 (f32 (f32 (f32 (1000000 / toFloat tgtDelayUs)
                                    * f32 (toFloat rampMsArg / 1000)) * (1 / 2)))"
  shows "1 \<le> v" and "v \<le> 132000000"
proof -
  show "1 \<le> v" by (simp add: v_def)
  define a where "a = f32 (1000000 / toFloat tgtDelayUs)"
  define b where "b = f32 (toFloat rampMsArg / 1000)"
  have t1: "1 \<le> toFloat tgtDelayUs" by (rule toFloat_ge_one [OF assms(1)])
  have q: "1000000 / toFloat tgtDelayUs \<le> 1000000 / 1"
    using t1 by (intro divide_left_mono) simp_all
  have q0: "0 \<le> 1000000 / toFloat tgtDelayUs" using t1 by simp
  have a0: "0 \<le> a" unfolding a_def using q0 by (rule f32_nonneg)
  have a1: "a \<le> of_int 1000000"
    unfolding a_def using q0 q by (intro f32_le_int) simp_all
  define r where "r = uint rampMsArg"
  have "r < 2 ^ 16" unfolding r_def using uint_lt2p [of rampMsArg] by simp
  then have ru: "r < 16777216" and rl: "r \<le> 65535" by simp_all
  have rn: "0 \<le> r" unfolding r_def by simp
  have rf: "toFloat rampMsArg = of_int r"
    unfolding r_def using ru [unfolded r_def] by (rule toFloat_exact)
  have r0: "(0 :: real) \<le> of_int r" using rn by simp
  have r1: "(of_int r :: real) \<le> 65535" using rl by simp
  have b0: "0 \<le> b" unfolding b_def rf using r0 by (intro f32_nonneg) simp
  have "b \<le> of_int 66"
    unfolding b_def rf using r0 r1 by (intro f32_le_int) simp_all
  then have b1: "b \<le> 66" by simp
  have ab0: "0 \<le> a * b" using a0 b0 by simp
  have "a * b \<le> 1000000 * 66" using a0 a1 b0 b1 by (intro mult_mono) simp_all
  then have ab1: "a * b \<le> 66000000" by simp
  have c0: "0 \<le> f32 (a * b)" using ab0 by (rule f32_nonneg)
  have c1: "f32 (a * b) \<le> 2 * (a * b)" using ab0 by (rule f32_le_double)
  have d0: "0 \<le> f32 (a * b) * (1 / 2)" using c0 by simp
  have "f32 (f32 (a * b) * (1 / 2)) \<le> 2 * (f32 (a * b) * (1 / 2))"
    using d0 by (rule f32_le_double)
  then have "f32 (f32 (a * b) * (1 / 2)) \<le> 132000000" using c1 ab1 by linarith
  then show "v \<le> 132000000" by (simp add: v_def a_def b_def)
qed

lemma rampSteps_le:
  assumes "tgtDelayUs \<noteq> 0"
  shows "2 * uint (rampStepsFor totalSteps tgtDelayUs rampMsArg) \<le> uint totalSteps"
proof -
  define v where
    "v = max 1 (f32 (f32 (f32 (1000000 / toFloat tgtDelayUs)
                            * f32 (toFloat rampMsArg / 1000)) * (1 / 2)))"
  define r0 where "r0 = f2u32 v"
  have lo: "1 \<le> v" and hi: "v \<le> 132000000"
    unfolding v_def by (rule rampSteps_raw_bounds [OF assms])+
  have u: "uint r0 = \<lfloor>v\<rfloor>"
    unfolding r0_def using lo hi by (intro uint_f2u32) simp_all
  have "\<lfloor>v\<rfloor> \<le> 132000000" using hi by (simp add: floor_le_iff)
  then have small: "uint r0 \<le> 132000000" using u by simp
  have nn: "0 \<le> uint r0" by simp
  have m2: "uint (r0 * 2) = uint r0 * 2"
    using small nn by (simp add: uint_word_ariths)
  have def: "rampStepsFor totalSteps tgtDelayUs rampMsArg
               = (if r0 * 2 > totalSteps then totalSteps div 2 else r0)"
    by (simp add: rampStepsFor_def Let_def r0_def v_def)
  show ?thesis
  proof (cases "r0 * 2 > totalSteps")
    case True
    have "uint (totalSteps div 2) = uint totalSteps div 2" by (simp add: uint_div)
    then show ?thesis using True def by simp
  next
    case False
    then have "uint (r0 * 2) \<le> uint totalSteps" by (simp add: word_less_def not_less)
    then show ?thesis using False def m2 by simp
  qed
qed

lemma rampSteps_parts:
  fixes totalSteps tgtDelayUs :: uint32 and rampMsArg :: uint16
  assumes "tgtDelayUs \<noteq> 0"
  defines "rs \<equiv> rampStepsFor totalSteps tgtDelayUs rampMsArg"
  shows "2 * unat rs \<le> unat totalSteps"
    and "unat (totalSteps - rs - rs) + 2 * unat rs = unat totalSteps"
proof -
  have i: "2 * uint rs \<le> uint totalSteps" unfolding rs_def by (rule rampSteps_le [OF assms(1)])
  have "2 * int (unat rs) \<le> int (unat totalSteps)" using i by simp
  then show n: "2 * unat rs \<le> unat totalSteps" by linarith
  have le1: "rs \<le> totalSteps" using n by (simp add: word_le_nat_alt)
  have s1: "unat (totalSteps - rs) = unat totalSteps - unat rs"
    using le1 by (rule unat_sub)
  have le2: "rs \<le> totalSteps - rs" using n s1 by (simp add: word_le_nat_alt)
  have s2: "unat (totalSteps - rs - rs) = unat (totalSteps - rs) - unat rs"
    using le2 by (rule unat_sub)
  show "unat (totalSteps - rs - rs) + 2 * unat rs = unat totalSteps"
    using n s1 s2 by simp
qed

text \<open>C3. For every step count, every target delay other than 0 (\<^verbatim>\<open>dpsToDelayUs\<close> returns
  2 at least; at 0 the source divides a float by zero) and every ramp time, a profile
  that no abort interrupts adds exactly \<open>totalSteps\<close> pulses to the log; the ramp steps
  chosen satisfy \<open>2 * rampSteps \<le> totalSteps\<close>, and the cruise segment
  \<open>totalSteps - rampSteps - rampSteps\<close> does not wrap: with the two ramps it makes up
  \<open>totalSteps\<close>.\<close>

theorem profile_length:
  assumes "tgtDelayUs \<noteq> 0" and "\<not> abortRequested s" and "True \<notin> set (asyncAbort s)"
  shows "pulseCount pulPin (trace (runProfile pulPin totalSteps tgtDelayUs rampMsArg s))
           = pulseCount pulPin (trace s) + unat totalSteps
         \<and> 2 * unat (rampStepsFor totalSteps tgtDelayUs rampMsArg) \<le> unat totalSteps
         \<and> unat (totalSteps - rampStepsFor totalSteps tgtDelayUs rampMsArg
                    - rampStepsFor totalSteps tgtDelayUs rampMsArg)
             + 2 * unat (rampStepsFor totalSteps tgtDelayUs rampMsArg) = unat totalSteps"
proof -
  define rs where "rs = rampStepsFor totalSteps tgtDelayUs rampMsArg"
  note parts = rampSteps_parts [OF assms(1), of totalSteps rampMsArg, folded rs_def]
  have count: "pulseCount pulPin (trace (runProfile pulPin totalSteps tgtDelayUs rampMsArg s))
           = pulseCount pulPin (trace s) + unat totalSteps"
  proof (cases "rampMsArg = 0 \<or> totalSteps < 10")
    case True
    then have "runProfile pulPin totalSteps tgtDelayUs rampMsArg s
                 = forPulses pulPin (\<lambda>i. tgtDelayUs) 0 (unat totalSteps) s"
      by (simp add: runProfile_def)
    then show ?thesis
      using forPulses_count [OF assms(2) assms(3), of pulPin "\<lambda>i. tgtDelayUs" 0 "unat totalSteps"]
      by simp
  next
    case False
    define sd where "sd = startDelayFor tgtDelayUs"
    define s1 where "s1 = forPulses pulPin (accelDelay rs sd tgtDelayUs) 0 (unat rs) s"
    define s2 where "s2 = forPulses pulPin (\<lambda>i. tgtDelayUs) 0 (unat (totalSteps - rs - rs)) s1"
    define s3 where "s3 = forPulses pulPin (decelDelay rs sd tgtDelayUs) 0 (unat rs) s2"
    have r: "runProfile pulPin totalSteps tgtDelayUs rampMsArg s = s3"
      using False by (simp add: runProfile_def Let_def s3_def s2_def s1_def sd_def rs_def)
    note c1 = forPulses_count [OF assms(2) assms(3), of pulPin "accelDelay rs sd tgtDelayUs" 0 "unat rs",
        folded s1_def]
    note c2 = forPulses_count [of s1 pulPin "\<lambda>i. tgtDelayUs" 0 "unat (totalSteps - rs - rs)",
        folded s2_def]
    note c3 = forPulses_count [of s2 pulPin "decelDelay rs sd tgtDelayUs" 0 "unat rs",
        folded s3_def]
    have "pulseCount pulPin (trace s3)
            = pulseCount pulPin (trace s) + unat rs + unat (totalSteps - rs - rs) + unat rs"
      using c1 c2 c3 by simp
    then show ?thesis using r parts(2) by simp
  qed
  show ?thesis using count parts by (simp add: rs_def)
qed

theorem profile_length_witness:
  "(2500 :: uint32) \<noteq> 0 \<and> \<not> abortRequested initialState
   \<and> True \<notin> set (asyncAbort initialState)
   \<and> pulseCount 2 (trace (runProfile 2 12 2500 10 initialState)) = 12
   \<and> rampStepsFor 12 2500 10 = 2"
proof -
  have a: "(2500 :: uint32) \<noteq> 0" by simp
  have b: "\<not> abortRequested initialState" by (simp add: initialState_def)
  have c: "True \<notin> set (asyncAbort initialState)" by (simp add: initialState_def)
  have d: "rampStepsFor 12 2500 10 = 2"
    by (simp add: rampStepsFor_def f2u32_def truncf_def toFloat_def f32_eval
        cong: let_weak_cong)
  have e: "pulseCount 2 (trace initialState) = 0"
    by (simp add: pulseCount_def initialState_def)
  show ?thesis
    using a b c d e profile_length [OF a b c, of 2 12 10] by simp
qed

subsection \<open>The first delay of a ramp\<close>









subsection \<open>MOVE and TEST select the axis\<close>

lemma runProfile_aktifMotor:
  "aktifMotor (runProfile pin totalSteps tgtDelayUs rampMsArg s) = aktifMotor s"
  by (simp add: runProfile_def Let_def forPulses_aktifMotor)

lemma moveWithProfile_aktifMotor:
  "aktifMotor (moveWithProfile m deg dps rampMsArg s) = aktifMotor s"
  by (simp add: moveWithProfile_def Let_def runProfile_aktifMotor serialPrintln_def
      serialPrint_def enaOn_def digitalWrite_def)

lemma testLoop_aktifMotor:
  "aktifMotor (testLoop i rep m deg dps pms s) = aktifMotor s"
proof (induction i rep m deg dps pms s rule: testLoop.induct)
  case (1 i rep m deg dps pms s)
  show ?case
  proof (cases "i < rep")
    case False
    then show ?thesis by (simp add: testLoop.simps)
  next
    case True
    obtain a1 s1 where r1: "readAbort s = (a1, s1)" by (cases "readAbort s")
    show ?thesis
    proof (cases a1)
      case True
      then show ?thesis
        using \<open>i < rep\<close> r1 readAbort_facts(4) [OF r1] by (simp add: testLoop.simps)
    next
      case na1: False
      define s2 where "s2 = moveWithProfile m \<bar>deg\<bar> dps (rampMs s1) s1"
      obtain a2 s3 where r2: "readAbort s2 = (a2, s3)" by (cases "readAbort s2")
      have k3: "aktifMotor s3 = aktifMotor s"
        using readAbort_facts(4) [OF r2] readAbort_facts(4) [OF r1]
        by (simp add: s2_def moveWithProfile_aktifMotor)
      show ?thesis
      proof (cases a2)
        case True
        then show ?thesis
          using \<open>i < rep\<close> r1 na1 r2 k3 by (simp add: testLoop.simps s2_def [symmetric])
      next
        case na2: False
        define s4 where "s4 = delayMs (word_of_int pms) s3"
        define s5 where "s5 = moveWithProfile m (- \<bar>deg\<bar>) dps (rampMs s4) s4"
        define s6 where "s6 = (if i + 1 < rep then delayMs (word_of_int pms) s5 else s5)"
        have k6: "aktifMotor s6 = aktifMotor s"
          using k3 by (simp add: s6_def s5_def s4_def moveWithProfile_aktifMotor delayMs_def)
        have eq: "testLoop i rep m deg dps pms s = testLoop (i + 1) rep m deg dps pms s6"
          using \<open>i < rep\<close> r1 na1 r2 na2
          by (subst testLoop.simps)
             (simp add: s2_def [symmetric] Let_def s6_def s5_def s4_def)
        have "aktifMotor (testLoop (i + 1) rep m deg dps pms s6) = aktifMotor s6"
          using "1.IH" [OF \<open>i < rep\<close> r1 [symmetric] na1 s2_def r2 [symmetric] na2 s4_def s5_def s6_def]
          by simp
        then show ?thesis using eq k6 by simp
      qed
    qed
  qed
qed

text \<open>C10. An accepted \<^verbatim>\<open>MOVE m deg dps\<close> runs \<^verbatim>\<open>moveWithProfile\<close>, and an accepted
  \<^verbatim>\<open>TEST m deg dps rep pause\<close> runs its loop, from the state in which \<open>aktifMotor\<close> is
  \<open>m\<close> and \<open>abortRequested\<close> is cleared; \<open>aktifMotor\<close> is still \<open>m\<close> afterwards, so a
  following \<^verbatim>\<open>G\<close> moves axis \<open>m\<close>.\<close>

theorem move_test_select_axis:
  "(strtokAll (toCharArray (trim lineM) 64) = ''MOVE'' # pm # pd # pv # restM
      \<and> 1 \<le> atoi pm \<and> atoi pm \<le> 5 \<and> 0 < atof pv
    \<longrightarrow> parseAndExec lineM s
          = moveWithProfile (atoi pm) (atof pd) (atof pv) (rampMs s)
              (s\<lparr>aktifMotor := atoi pm, abortRequested := False\<rparr>)
        \<and> aktifMotor (parseAndExec lineM s) = atoi pm
        \<and> parseAndExec ''G'' (parseAndExec lineM s)
            = doForward (atoi pm) (parseAndExec lineM s))
   \<and> (strtokAll (toCharArray (trim lineT) 64) = ''TEST'' # qm # qd # qv # qr # qp # restT
      \<and> 1 \<le> atoi qm \<and> atoi qm \<le> 5 \<and> 0 < atof qv \<and> 1 \<le> atoi qr
    \<longrightarrow> parseAndExec lineT s
          = testLoop 0 (atoi qr) (atoi qm) (atof qd) (atof qv) (atoi qp)
              (s\<lparr>aktifMotor := atoi qm, abortRequested := False\<rparr>)
        \<and> aktifMotor (parseAndExec lineT s) = atoi qm
        \<and> parseAndExec ''G'' (parseAndExec lineT s)
            = doForward (atoi qm) (parseAndExec lineT s))"
proof -
  have g: "\<And>t. parseAndExec ''G'' t = doForward (aktifMotor t) t"
    by (simp add: parseAndExec_def parseAndExecBuf_def str_defs)
  have "parseAndExec lineM s
          = moveWithProfile (atoi pm) (atof pd) (atof pv) (rampMs s)
              (s\<lparr>aktifMotor := atoi pm, abortRequested := False\<rparr>)
        \<and> aktifMotor (parseAndExec lineM s) = atoi pm
        \<and> parseAndExec ''G'' (parseAndExec lineM s)
            = doForward (atoi pm) (parseAndExec lineM s)"
    if tk: "strtokAll (toCharArray (trim lineM) 64) = ''MOVE'' # pm # pd # pv # restM"
      and ok: "1 \<le> atoi pm" "atoi pm \<le> 5" "0 < atof pv"
  proof -
    have "execCmd ''MOVE'' (pm # pd # pv # restM) s
            = moveWithProfile (atoi pm) (atof pd) (atof pv) (rampMs s)
                (s\<lparr>aktifMotor := atoi pm, abortRequested := False\<rparr>)"
      using ok by (simp add: execCmd_def cmdMOVE_def Let_def)
    then have e: "parseAndExec lineM s
            = moveWithProfile (atoi pm) (atof pd) (atof pv) (rampMs s)
                (s\<lparr>aktifMotor := atoi pm, abortRequested := False\<rparr>)"
      using parse_dispatch [OF tk, of s] by (simp add: parseAndExec_def)
    then have k: "aktifMotor (parseAndExec lineM s) = atoi pm"
      by (simp add: moveWithProfile_aktifMotor)
    show ?thesis using e k g [of "parseAndExec lineM s"] by simp
  qed
  moreover have "parseAndExec lineT s
          = testLoop 0 (atoi qr) (atoi qm) (atof qd) (atof qv) (atoi qp)
              (s\<lparr>aktifMotor := atoi qm, abortRequested := False\<rparr>)
        \<and> aktifMotor (parseAndExec lineT s) = atoi qm
        \<and> parseAndExec ''G'' (parseAndExec lineT s)
            = doForward (atoi qm) (parseAndExec lineT s)"
    if tk: "strtokAll (toCharArray (trim lineT) 64) = ''TEST'' # qm # qd # qv # qr # qp # restT"
      and ok: "1 \<le> atoi qm" "atoi qm \<le> 5" "0 < atof qv" "1 \<le> atoi qr"
  proof -
    have "execCmd ''TEST'' (qm # qd # qv # qr # qp # restT) s
            = testLoop 0 (atoi qr) (atoi qm) (atof qd) (atof qv) (atoi qp)
                (s\<lparr>aktifMotor := atoi qm, abortRequested := False\<rparr>)"
      using ok by (simp add: execCmd_def cmdTEST_def Let_def)
    then have e: "parseAndExec lineT s
            = testLoop 0 (atoi qr) (atoi qm) (atof qd) (atof qv) (atoi qp)
                (s\<lparr>aktifMotor := atoi qm, abortRequested := False\<rparr>)"
      using parse_dispatch [OF tk, of s] by (simp add: parseAndExec_def)
    then have k: "aktifMotor (parseAndExec lineT s) = atoi qm"
      by (simp add: testLoop_aktifMotor)
    show ?thesis using e k g [of "parseAndExec lineT s"] by simp
  qed
  ultimately show ?thesis by blast
qed

theorem move_test_select_axis_witness:
  "strtokAll (toCharArray (trim ''MOVE 3 45 90'') 64) = ''MOVE'' # ''3'' # ''45'' # ''90'' # []
   \<and> atoi ''3'' = 3 \<and> atof ''90'' = 90
   \<and> strtokAll (toCharArray (trim ''TEST 2 10 90 3 200'') 64)
       = ''TEST'' # ''2'' # ''10'' # ''90'' # ''3'' # ''200'' # []
   \<and> atoi ''2'' = 2
   \<and> aktifMotor initialState = 1
   \<and> aktifMotor (parseAndExec ''MOVE 3 45 90'' initialState) = 3
   \<and> aktifMotor (parseAndExec ''TEST 2 10 90 3 200'' initialState) = 2"
proof -
  have a: "strtokAll (toCharArray (trim ''MOVE 3 45 90'') 64)
             = ''MOVE'' # ''3'' # ''45'' # ''90'' # []"
    by (simp add: strtokAll.simps str_defs)
  have b: "strtokAll (toCharArray (trim ''TEST 2 10 90 3 200'') 64)
             = ''TEST'' # ''2'' # ''10'' # ''90'' # ''3'' # ''200'' # []"
    by (simp add: strtokAll.simps str_defs)
  have n: "atoi ''3'' = 3" "atoi ''2'' = 2" "atof ''90'' = 90"
    by (simp_all add: str_defs f32_eval cong: let_weak_cong)
  have i: "aktifMotor initialState = 1" by (simp add: initialState_def)
  note th = move_test_select_axis [of "''MOVE 3 45 90''" "''3''" "''45''" "''90''" "[]"
      initialState "''TEST 2 10 90 3 200''" "''2''" "''10''" "''90''" "''3''" "''200''" "[]"]
  have hM: "strtokAll (toCharArray (trim ''MOVE 3 45 90'') 64)
              = ''MOVE'' # ''3'' # ''45'' # ''90'' # []
            \<and> 1 \<le> atoi ''3'' \<and> atoi ''3'' \<le> 5 \<and> 0 < atof ''90''"
    using a n by simp
  have hT: "strtokAll (toCharArray (trim ''TEST 2 10 90 3 200'') 64)
              = ''TEST'' # ''2'' # ''10'' # ''90'' # ''3'' # ''200'' # []
            \<and> 1 \<le> atoi ''2'' \<and> atoi ''2'' \<le> 5 \<and> 0 < atof ''90'' \<and> 1 \<le> atoi ''3''"
    using b n by simp
  have m: "aktifMotor (parseAndExec ''MOVE 3 45 90'' initialState) = atoi ''3''"
    using th hM by blast
  have t: "aktifMotor (parseAndExec ''TEST 2 10 90 3 200'' initialState) = atoi ''2''"
    using th hT by blast
  show ?thesis using a b n i m t by simp
qed

end
